theory Spec2Isabelle
  imports Complex_Main "HOL-Library.Sublist"
begin

unbundle bit_operations_syntax

section \<open>Machine integers and system-call results\<close>

text \<open>
  \<open>off_t\<close> and \<open>ssize_t\<close> values are modelled as \<open>int\<close>, \<open>size_t\<close> values as \<open>nat\<close>.
  The two conversions below are the C casts between them on a 64-bit target; they are
  written out at the places where the source casts.
\<close>

definition to_size_t :: "int \<Rightarrow> nat" where
  "to_size_t i = nat (i mod 2 ^ 64)"

definition to_off_t :: "nat \<Rightarrow> int" where
  "to_off_t n = (let m = int n mod 2 ^ 64 in if m < 2 ^ 63 then m else m - 2 ^ 64)"

datatype errno = EINTR | EAGAIN | EINVAL | EIO | EPIPE | EOTHER

text \<open>A system call either succeeds with a non-negative value or returns -1 and sets errno.\<close>

datatype sysres = Ok nat | Fail errno

datatype readres = ReadData string | ReadFail errno

text \<open>Messages printed through \<open>pv_error\<close>, and the observable actions of one call.\<close>

datatype message =
    ReadFailed
  | ReadErrorsWarning
  | NotSeekable
  | FailedSeekPastError
  | SkippedPastReadError int int int
  | NoTransferBuffer
  | WriteFailed
  | BufferAllocationFailed
  | SelectCallFailed
  | LinePositionAllocationFailed
  | TimerSetFailed
  | TimerClearFailed

datatype event =
    SpliceCall int nat
  | ReadCall int nat
  | WriteCall nat nat
  | OutputSeek int
  | BriefWait
  | PvError message

section \<open>State of the transfer engine (pv-internal.h)\<close>

record pvcontrol =
  error_skip_block :: int
  rate_limit :: int
  target_buffer_size :: nat
  ctl_size :: int
  skip_errors :: nat
  output_fd :: int
  linemode :: bool
  null_terminated_lines :: bool
  no_splice :: bool
  stop_at_size :: bool
  sync_after_write :: bool
  direct_io_changed :: bool
  sparse_output :: bool
  discard_input :: bool

record pvtransfer =
  transfer_buffer :: "(nat \<Rightarrow> char) option"
  buffer_size :: nat
  read_position :: nat
  write_position :: nat
  to_write :: int
  written :: int
  written_but_not_consumed :: nat
  total_bytes_read :: int
  total_written :: int
  transferred :: int
  line_positions :: "(nat \<Rightarrow> int) option"
  line_positions_capacity :: nat
  line_positions_length :: nat
  line_positions_head :: nat
  last_output_position :: int
  read_errors_in_a_row :: int
  last_read_skip_fd :: int
  splice_failed_fd :: int
  splice_used :: bool
  read_error_warning_shown :: bool
  output_not_seekable :: bool

text \<open>
  The state threaded through the transfer functions: the parts of \<open>struct pvstate_s\<close>
  they touch, the caller's variables they receive by pointer (\<open>eof_in\<close>, \<open>eof_out\<close>,
  \<open>lineswritten\<close>, where \<open>None\<close> is a NULL pointer), the process's \<open>errno\<close>, and the
  sequence of system calls and messages produced so far.
\<close>

record pvstate =
  control :: pvcontrol
  transfer :: pvtransfer
  exit_status :: int
  pipe_closed :: int
  showing_previous_line :: bool
  eof_in :: bool
  eof_out :: bool
  lineswritten :: "int option"
  errno :: errno
  trace :: "event list"

text \<open>What the operating system answers during one call of \<open>pv_transfer\<close>.\<close>

record sysenv =
  alloc_ok :: bool
  realloc_ok :: bool
  select_res :: sysres
  select_in :: bool
  select_out :: bool
  splice_res :: sysres
  fdatasync_res :: sysres
  read_res :: readres
  lseek_cur_res :: sysres
  lseek_set_res :: "int \<Rightarrow> sysres"
  lseek_retry_res :: "int \<Rightarrow> sysres"
  out_lseek_res :: sysres
  calloc_ok :: bool
  timer_set_ok :: bool
  timer_clear_ok :: bool
  write_res :: sysres

text \<open>
  Modelled from the spec: the exit-status bits are defined in \<open>pv.h\<close>, which is not among the
  sources. Section 6 of the specification gives \<open>1\<close> for a transfer error, \<open>2\<close> for a
  memory error and \<open>8\<close> for a remote or pid failure.
\<close>

definition PV_ERROREXIT_TRANSFER :: int where
  "PV_ERROREXIT_TRANSFER = 1"

definition PV_ERROREXIT_MEMORY :: int where
  "PV_ERROREXIT_MEMORY = 2"

definition PV_ERROREXIT_REMOTE_OR_PID :: int where
  "PV_ERROREXIT_REMOTE_OR_PID = 8"

definition emit :: "event \<Rightarrow> pvstate \<Rightarrow> pvstate" where
  "emit e s = s\<lparr>trace := trace s @ [e]\<rparr>"

definition buf_store :: "nat \<Rightarrow> string \<Rightarrow> (nat \<Rightarrow> char) option \<Rightarrow> (nat \<Rightarrow> char) option" where
  "buf_store pos d b =
     map_option (\<lambda>f i. if pos \<le> i \<and> i < pos + length d then d ! (i - pos) else f i) b"

definition buf_zero :: "nat \<Rightarrow> nat \<Rightarrow> (nat \<Rightarrow> char) option \<Rightarrow> (nat \<Rightarrow> char) option" where
  "buf_zero pos n b = map_option (\<lambda>f i. if pos \<le> i \<and> i < pos + n then CHR 0x00 else f i) b"

section \<open>pv__transfer_read (transfer.c)\<close>

text \<open>
  The source sets \<open>*eof_in\<close> and then \<open>*eof_out\<close> when everything buffered has been
  written, in four places of \<open>pv__transfer_read\<close>.
\<close>

definition mark_input_ended :: "pvstate \<Rightarrow> pvstate" where
  "mark_input_ended s =
     (let s1 = s\<lparr>eof_in := True\<rparr>
      in if write_position (transfer s1) \<ge> read_position (transfer s1)
         then s1\<lparr>eof_out := True\<rparr> else s1)"

text \<open>Lines 350-358: do not read past \<open>control.size\<close> when stop-at-size is set.\<close>

definition stop_at_size_cap :: "pvstate \<Rightarrow> nat \<Rightarrow> nat" where
  "stop_at_size_cap s bytes_can_read =
     (if stop_at_size (control s) \<and> \<not> linemode (control s) then
        (let bytes_remaining_to_read = ctl_size (control s) - total_bytes_read (transfer s)
         in if to_off_t bytes_can_read > bytes_remaining_to_read
            then to_size_t bytes_remaining_to_read else bytes_can_read)
      else bytes_can_read)"

text \<open>
  Lines 362-417, with HAVE_SPLICE and HAVE_FDATASYNC defined. Each part gives \<open>nread\<close>,
  whether a failed sync has set \<open>do_not_skip_errors\<close>, and the new state.
\<close>

definition set_splice_used :: "bool \<Rightarrow> pvstate \<Rightarrow> pvstate" where
  "set_splice_used b s = s\<lparr>transfer := (transfer s)\<lparr>splice_used := b\<rparr>\<rparr>"

text \<open>Lines 364-366: whether splice is tried.\<close>

definition splice_wanted :: "int \<Rightarrow> pvstate \<Rightarrow> bool" where
  "splice_wanted fd s \<longleftrightarrow>
     \<not> linemode (control s) \<and> \<not> no_splice (control s)
     \<and> fd \<noteq> splice_failed_fd (transfer s) \<and> to_write (transfer s) = 0"

text \<open>Lines 369-373.\<close>

definition bytes_to_splice :: "int \<Rightarrow> nat \<Rightarrow> pvstate \<Rightarrow> nat" where
  "bytes_to_splice max_to_write bytes_can_read s =
     (if rate_limit (control s) > 0 \<or> max_to_write \<noteq> 0
      then to_size_t max_to_write else bytes_can_read)"

text \<open>Lines 383-389 and 411-416: splice returned -1.\<close>

definition splice_failed :: "int \<Rightarrow> errno \<Rightarrow> pvstate \<Rightarrow> pvstate" where
  "splice_failed fd e s =
     (if e = EINVAL then
        s\<lparr>errno := e, transfer := (transfer s)\<lparr>splice_failed_fd := fd, splice_used := False\<rparr>\<rparr>
      else if e = EAGAIN then s\<lparr>errno := e\<rparr>
      else s\<lparr>errno := e, transfer := (transfer s)\<lparr>splice_used := False\<rparr>\<rparr>)"

text \<open>Lines 390-410: splice moved \<open>n > 0\<close> bytes to the output.\<close>

definition splice_moved :: "sysenv \<Rightarrow> nat \<Rightarrow> pvstate \<Rightarrow> pvstate" where
  "splice_moved env n s =
     s\<lparr>transfer := (transfer s)
          \<lparr>written := int n, total_bytes_read := total_bytes_read (transfer s) + int n\<rparr>,
       errno := (if sync_after_write (control s)
                 then (case fdatasync_res env of Fail e \<Rightarrow> e | Ok _ \<Rightarrow> errno s)
                 else errno s)\<rparr>"

definition sync_failed_after_splice :: "sysenv \<Rightarrow> pvstate \<Rightarrow> bool" where
  "sync_failed_after_splice env s \<longleftrightarrow>
     sync_after_write (control s) \<and> fdatasync_res env = Fail EIO"

definition splice_step :: "sysenv \<Rightarrow> int \<Rightarrow> int \<Rightarrow> nat \<Rightarrow> pvstate \<Rightarrow> int \<times> bool \<times> pvstate" where
  "splice_step env fd max_to_write bytes_can_read s =
     (if splice_wanted fd s then
        (case splice_res env of
           Fail e \<Rightarrow>
             (-1, False,
              splice_failed fd e
                (set_splice_used True
                   (emit (SpliceCall fd (bytes_to_splice max_to_write bytes_can_read s)) s)))
         | Ok n \<Rightarrow>
             if n > 0 then
               (if sync_failed_after_splice env s then -1 else int n,
                sync_failed_after_splice env s,
                splice_moved env n
                  (set_splice_used True
                     (emit (SpliceCall fd (bytes_to_splice max_to_write bytes_can_read s)) s)))
             else
               (0, False,
                set_splice_used False
                  (emit (SpliceCall fd (bytes_to_splice max_to_write bytes_can_read s)) s)))
      else (0, False, set_splice_used False s))"

text \<open>
  \<open>pv__transfer_read_repeated\<close> retries \<open>read(2)\<close> until the buffer is full, the input
  has nothing more, or 0.09 seconds of wall-clock time have passed. Its net effect is taken
  from the environment: the bytes appended at the read position (never more than asked
  for), or -1 with errno. With nothing to read for, the loop body does not run.
\<close>

definition store_read_data :: "string \<Rightarrow> pvstate \<Rightarrow> pvstate" where
  "store_read_data d s =
     s\<lparr>transfer := (transfer s)
          \<lparr>transfer_buffer :=
             buf_store (read_position (transfer s)) d (transfer_buffer (transfer s))\<rparr>\<rparr>"

definition pv__transfer_read_repeated :: "sysenv \<Rightarrow> int \<Rightarrow> nat \<Rightarrow> pvstate \<Rightarrow> int \<times> pvstate" where
  "pv__transfer_read_repeated env fd count s =
     (if count = 0 then (0, s)
      else
        (case read_res env of
           ReadFail e \<Rightarrow> (-1, (emit (ReadCall fd count) s)\<lparr>errno := e\<rparr>)
         | ReadData d \<Rightarrow>
             (int (length (take count d)),
              store_read_data (take count d) (emit (ReadCall fd count) s))))"

text \<open>Lines 537-548: the skip amount before it is rounded to a block boundary.\<close>

definition amount_to_skip_chosen :: "pvcontrol \<Rightarrow> pvtransfer \<Rightarrow> int" where
  "amount_to_skip_chosen c t =
     (if error_skip_block c > 0 then error_skip_block c
      else if read_errors_in_a_row t < 10 then
        (if read_errors_in_a_row t < 5 then 1 else 2)
      else if read_errors_in_a_row t < 20 then
        push_bit (nat (read_errors_in_a_row t - 10)) 1
      else 512)"

text \<open>Lines 555-561: round down to the start of the next block of the skip amount's size.\<close>

definition round_to_block :: "int \<Rightarrow> int \<Rightarrow> int" where
  "round_to_block orig_offset amount_to_skip =
     (if amount_to_skip > 1 then
        (let skip_offset = orig_offset + amount_to_skip;
             skip_offset' = skip_offset - (skip_offset mod amount_to_skip)
         in if skip_offset' > orig_offset then skip_offset' - orig_offset else amount_to_skip)
      else amount_to_skip)"

text \<open>Lines 504-511: the warning, shown once.\<close>

definition warn_once :: "pvstate \<Rightarrow> pvstate" where
  "warn_once s =
     (if \<not> read_error_warning_shown (transfer s) then
        (emit (PvError ReadErrorsWarning) s)
          \<lparr>transfer := (transfer s)\<lparr>read_error_warning_shown := True\<rparr>\<rparr>
      else s)"

text \<open>Lines 537-567: the amount chosen, rounded, and trimmed to the room in the buffer.\<close>

definition amount_to_skip_trimmed :: "pvstate \<Rightarrow> int \<Rightarrow> nat \<Rightarrow> int" where
  "amount_to_skip_trimmed s orig_offset bytes_can_read =
     (let rounded = round_to_block orig_offset (amount_to_skip_chosen (control s) (transfer s))
      in if rounded > to_off_t bytes_can_read then to_off_t bytes_can_read else rounded)"

text \<open>
  Lines 571-584: seek past the error, and try one byte when that fails. The result is
  the new offset, or \<open>None\<close> when both seeks failed.
\<close>

definition seek_past_error :: "sysenv \<Rightarrow> int \<Rightarrow> int \<Rightarrow> pvstate \<Rightarrow> int option \<times> pvstate" where
  "seek_past_error env orig_offset amount_to_skip s =
     (case lseek_set_res env (orig_offset + amount_to_skip) of
        Ok off \<Rightarrow> (Some (int off), s)
      | Fail e \<Rightarrow>
          (case lseek_retry_res env (orig_offset + 1) of
             Ok off \<Rightarrow> (Some (int off), s\<lparr>errno := e\<rparr>)
           | Fail e' \<Rightarrow> (None, s\<lparr>errno := e'\<rparr>)))"

text \<open>Lines 586-603: both seeks failed.\<close>

definition seek_failed :: "pvstate \<Rightarrow> pvstate" where
  "seek_failed s =
     (if errno s \<noteq> EINVAL then emit (PvError FailedSeekPastError) (s\<lparr>eof_in := True\<rparr>)
      else s\<lparr>eof_in := True\<rparr>)"

text \<open>Lines 612-623: zero the skipped part of the buffer and report the range.\<close>

definition zero_fill_skipped :: "int \<Rightarrow> int \<Rightarrow> pvstate \<Rightarrow> pvstate" where
  "zero_fill_skipped orig_offset skip_offset s =
     (let amount_skipped = skip_offset - orig_offset;
          rp = read_position (transfer s);
          s1 = s\<lparr>transfer := (transfer s)
                 \<lparr>transfer_buffer :=
                    buf_zero rp (to_size_t amount_skipped) (transfer_buffer (transfer s)),
                  read_position := to_size_t (int rp + amount_skipped)\<rparr>\<rparr>
      in if skip_errors (control s) < 2
         then emit (PvError (SkippedPastReadError orig_offset skip_offset amount_skipped)) s1
         else s1)"

text \<open>Lines 586-634: what follows the seek.\<close>

definition finish_skip :: "int \<Rightarrow> int option \<Rightarrow> pvstate \<Rightarrow> pvstate" where
  "finish_skip orig_offset sought s =
     (case sought of
        None \<Rightarrow> mark_input_ended (seek_failed s)
      | Some skip_offset \<Rightarrow>
          if skip_offset - orig_offset > 0 then zero_fill_skipped orig_offset skip_offset s
          else mark_input_ended s)"

text \<open>Lines 498-635: try to skip past a read error.\<close>

definition skip_past_error :: "sysenv \<Rightarrow> int \<Rightarrow> nat \<Rightarrow> pvstate \<Rightarrow> pvstate" where
  "skip_past_error env fd bytes_can_read s0 =
     (case lseek_cur_res env of
        Fail e \<Rightarrow> mark_input_ended (emit (PvError NotSeekable) ((warn_once s0)\<lparr>errno := e\<rparr>))
      | Ok orig \<Rightarrow>
          (case seek_past_error env (int orig)
                  (amount_to_skip_trimmed (warn_once s0) (int orig) bytes_can_read) (warn_once s0) of
             (sought, s2) \<Rightarrow> finish_skip (int orig) sought s2))"

text \<open>Lines 477-496: a read error that is not transient.\<close>

definition count_read_error :: "pvstate \<Rightarrow> pvstate" where
  "count_read_error s =
     s\<lparr>exit_status := exit_status s OR PV_ERROREXIT_TRANSFER,
       transfer := (transfer s)\<lparr>read_errors_in_a_row := read_errors_in_a_row (transfer s) + 1\<rparr>\<rparr>"

definition read_failed :: "sysenv \<Rightarrow> int \<Rightarrow> nat \<Rightarrow> bool \<Rightarrow> pvstate \<Rightarrow> pvstate" where
  "read_failed env fd bytes_can_read do_not_skip_errors s =
     (if do_not_skip_errors
      then mark_input_ended (emit (PvError ReadFailed) (count_read_error s))
      else skip_past_error env fd bytes_can_read (count_read_error s))"

text \<open>Lines 441-461: data was read.\<close>

definition read_succeeded :: "int \<Rightarrow> pvstate \<Rightarrow> pvstate" where
  "read_succeeded nread s =
     s\<lparr>transfer := (transfer s)
          \<lparr>read_errors_in_a_row := 0,
           read_position :=
             (if \<not> splice_used (transfer s)
              then to_size_t (int (read_position (transfer s)) + nread)
              else read_position (transfer s)),
           total_bytes_read := total_bytes_read (transfer s) + nread\<rparr>\<rparr>"

text \<open>Lines 430-635: what \<open>pv__transfer_read\<close> does with \<open>nread\<close>.\<close>

definition read_outcome :: "sysenv \<Rightarrow> int \<Rightarrow> nat \<Rightarrow> bool \<Rightarrow> int \<Rightarrow> pvstate \<Rightarrow> int \<times> pvstate" where
  "read_outcome env fd bytes_can_read do_not_skip_errors nread s =
     (if nread = 0 then (1, mark_input_ended s)
      else if nread > 0 then (1, read_succeeded nread s)
      else if errno s = EINTR \<or> errno s = EAGAIN then (0, emit BriefWait s)
      else (1, read_failed env fd bytes_can_read do_not_skip_errors s))"

text \<open>Lines 342-358: how many bytes may be read.\<close>

definition bytes_can_read_now :: "pvstate \<Rightarrow> nat" where
  "bytes_can_read_now s =
     stop_at_size_cap s
       (to_size_t (int (buffer_size (transfer s)) - int (read_position (transfer s))))"

text \<open>Lines 418-422: the ordinary read, unless splice was used.\<close>

definition read_unless_spliced :: "sysenv \<Rightarrow> int \<Rightarrow> nat \<Rightarrow> int \<Rightarrow> pvstate \<Rightarrow> int \<times> pvstate" where
  "read_unless_spliced env fd bytes_can_read nread s =
     (if \<not> splice_used (transfer s)
      then pv__transfer_read_repeated env fd bytes_can_read s else (nread, s))"

definition pv__transfer_read :: "sysenv \<Rightarrow> int \<Rightarrow> int \<Rightarrow> pvstate \<Rightarrow> int \<times> pvstate" where
  "pv__transfer_read env fd max_to_write s0 =
     (case splice_step env fd max_to_write (bytes_can_read_now s0) s0 of
        (nread1, sync_failed, s1) \<Rightarrow>
          (case read_unless_spliced env fd (bytes_can_read_now s0) nread1 s1 of
             (nread, s2) \<Rightarrow>
               read_outcome env fd (bytes_can_read_now s0)
                 (skip_errors (control s0) = 0 \<or> sync_failed) nread s2))"

section \<open>pv__transfer_write (transfer.c)\<close>

definition MAX_LINE_POSITIONS :: nat where
  "MAX_LINE_POSITIONS = 100000"

text \<open>Lines 683-692: whether the bytes about to be written are all null.\<close>

fun all_nulls :: "(nat \<Rightarrow> char) \<Rightarrow> nat \<Rightarrow> nat \<Rightarrow> bool" where
  "all_nulls buf write_check_position 0 = True"
| "all_nulls buf write_check_position (Suc n) =
     (buf write_check_position = CHR 0x00 \<and> all_nulls buf (Suc write_check_position) n)"

text \<open>
  Lines 728-785: the write itself, between arming and clearing the interval timer.
  \<open>pv__transfer_write_repeated\<close> retries \<open>write(2)\<close> for at most 0.9 seconds; its
  net result is taken from the environment: the number of bytes written (never more than
  asked for), or -1 with errno. The result is \<open>nwritten\<close>, \<open>write_errno\<close> (\<open>None\<close> for 0)
  and the new state.
\<close>

definition arm_timer :: "sysenv \<Rightarrow> pvstate \<Rightarrow> pvstate" where
  "arm_timer env s = (if timer_set_ok env then s else emit (PvError TimerSetFailed) s)"

definition clear_timer :: "sysenv \<Rightarrow> pvstate \<Rightarrow> pvstate" where
  "clear_timer env s = (if timer_clear_ok env then s else emit (PvError TimerClearFailed) s)"

definition write_call :: "pvstate \<Rightarrow> pvstate" where
  "write_call s =
     emit (WriteCall (write_position (transfer s)) (to_size_t (to_write (transfer s)))) s"

definition timed_write :: "sysenv \<Rightarrow> pvstate \<Rightarrow> int \<times> errno option \<times> pvstate" where
  "timed_write env s =
     (case write_res env of
        Ok n \<Rightarrow>
          (int (min n (to_size_t (to_write (transfer s)))), None,
           clear_timer env (write_call (arm_timer env s)))
      | Fail e \<Rightarrow>
          (-1, Some e, clear_timer env ((write_call (arm_timer env s))\<lparr>errno := e\<rparr>)))"

text \<open>Lines 673-785: discard, sparse seek, or write.\<close>

definition sparse_seek_failed :: "errno \<Rightarrow> pvstate \<Rightarrow> pvstate" where
  "sparse_seek_failed e s =
     s\<lparr>errno := e, transfer := (transfer s)\<lparr>output_not_seekable := True\<rparr>\<rparr>"

definition write_attempt :: "sysenv \<Rightarrow> (nat \<Rightarrow> char) \<Rightarrow> pvstate \<Rightarrow> int \<times> errno option \<times> pvstate" where
  "write_attempt env buf s =
     (if discard_input (control s) then (to_write (transfer s), None, s)
      else if to_write (transfer s) > 0 then
        (if sparse_output (control s) \<and> \<not> output_not_seekable (transfer s)
            \<and> all_nulls buf (write_position (transfer s)) (to_size_t (to_write (transfer s)))
         then
           (case out_lseek_res env of
              Ok off \<Rightarrow>
                (to_write (transfer s), None, emit (OutputSeek (to_write (transfer s))) s)
            | Fail e \<Rightarrow>
                timed_write env
                  (sparse_seek_failed e (emit (OutputSeek (to_write (transfer s))) s)))
         else timed_write env s)
      else (0, None, s))"

text \<open>
  Lines 836-900: walk over the bytes just written, counting separators and remembering
  their output positions in the circular buffer. The copies kept for the \<open>%L\<close> and \<open>%A\<close>
  display segments (\<open>previous_line\<close>, \<open>next_line\<close>, \<open>lastwritten_buffer\<close>) are display
  state and are left out.
\<close>

definition store_line_position :: "pvtransfer \<Rightarrow> pvtransfer" where
  "store_line_position t =
     (case line_positions t of
        None \<Rightarrow> t
      | Some lp \<Rightarrow>
          (let t1 = t\<lparr>line_positions := Some (lp(line_positions_head t := last_output_position t)),
                      line_positions_head := line_positions_head t + 1\<rparr>;
               t2 = (if line_positions_head t1 \<ge> line_positions_capacity t1
                     then t1\<lparr>line_positions_head := 0\<rparr> else t1)
           in if line_positions_length t2 < line_positions_capacity t2
              then t2\<lparr>line_positions_length := line_positions_length t2 + 1\<rparr> else t2))"

fun scan_written :: "char \<Rightarrow> char list \<Rightarrow> pvtransfer \<Rightarrow> int \<Rightarrow> pvtransfer \<times> int" where
  "scan_written separator [] t lines = (t, lines)"
| "scan_written separator (c # cs) t lines =
     (let t1 = (if c \<noteq> separator then t else store_line_position t);
          lines1 = (if c \<noteq> separator then lines else lines + 1)
      in scan_written separator cs
           (t1\<lparr>last_output_position := last_output_position t1 + 1\<rparr>) lines1)"

text \<open>Lines 815-827: allocate the buffer that remembers line positions.\<close>

definition allocate_line_positions :: "sysenv \<Rightarrow> pvstate \<Rightarrow> pvstate" where
  "allocate_line_positions env s =
     (if line_positions (transfer s) = None \<and> lineswritten s \<noteq> None then
        (if calloc_ok env then
           s\<lparr>transfer := (transfer s)
                \<lparr>line_positions_capacity := MAX_LINE_POSITIONS,
                 line_positions := Some (\<lambda>_. 0)\<rparr>\<rparr>
         else
           (emit (PvError LinePositionAllocationFailed) s)
             \<lparr>transfer := (transfer s)\<lparr>line_positions_capacity := MAX_LINE_POSITIONS\<rparr>\<rparr>)
      else s)"

definition line_separator :: "pvstate \<Rightarrow> char" where
  "line_separator s = (if null_terminated_lines (control s) then CHR 0x00 else CHR 0x0A)"

definition count_lines :: "(nat \<Rightarrow> char) \<Rightarrow> int \<Rightarrow> pvstate \<Rightarrow> pvstate" where
  "count_lines buf nwritten s =
     (case scan_written (line_separator s)
             (map buf [write_position (transfer s) ..< write_position (transfer s) + nat nwritten])
             (transfer s) 0 of
        (t, lines) \<Rightarrow> s\<lparr>transfer := t, lineswritten := map_option (\<lambda>l. l + lines) (lineswritten s)\<rparr>)"

definition track_lines :: "sysenv \<Rightarrow> (nat \<Rightarrow> char) \<Rightarrow> int \<Rightarrow> pvstate \<Rightarrow> pvstate" where
  "track_lines env buf nwritten s =
     (if (linemode (control s) \<and> lineswritten s \<noteq> None) \<or> showing_previous_line s
      then count_lines buf nwritten (allocate_line_positions env s) else s)"

text \<open>Lines 906-907: move the write position on.\<close>

definition advance_write :: "int \<Rightarrow> pvstate \<Rightarrow> pvstate" where
  "advance_write nwritten s =
     s\<lparr>transfer := (transfer s)
          \<lparr>write_position := to_size_t (int (write_position (transfer s)) + nwritten),
           written := written (transfer s) + nwritten\<rparr>\<rparr>"

text \<open>Lines 955-960: everything buffered has been written.\<close>

definition reset_when_drained :: "pvstate \<Rightarrow> pvstate" where
  "reset_when_drained s =
     (if write_position (transfer s) \<ge> read_position (transfer s) then
        s\<lparr>transfer := (transfer s)\<lparr>write_position := 0, read_position := 0\<rparr>,
          eof_out := (eof_in s \<or> eof_out s)\<rparr>
      else s)"

text \<open>Lines 790-963: data was written.\<close>

definition write_completed :: "sysenv \<Rightarrow> (nat \<Rightarrow> char) \<Rightarrow> int \<Rightarrow> pvstate \<Rightarrow> pvstate" where
  "write_completed env buf nwritten s =
     reset_when_drained (advance_write nwritten (track_lines env buf nwritten s))"

text \<open>Lines 662-668: there is no transfer buffer.\<close>

definition no_transfer_buffer :: "pvstate \<Rightarrow> pvstate" where
  "no_transfer_buffer s =
     (emit (PvError NoTransferBuffer) s)
       \<lparr>exit_status := exit_status s OR PV_ERROREXIT_MEMORY,
        eof_out := True,
        transfer := (transfer s)\<lparr>written := -1\<rparr>\<rparr>"

text \<open>Lines 984-994: the output pipe was closed.\<close>

definition output_pipe_closed :: "pvstate \<Rightarrow> pvstate" where
  "output_pipe_closed s = s\<lparr>eof_in := True, eof_out := True, pipe_closed := 1\<rparr>"

text \<open>Lines 996-1001: any other write error.\<close>

definition write_failed :: "pvstate \<Rightarrow> pvstate" where
  "write_failed s =
     (emit (PvError WriteFailed) s)
       \<lparr>exit_status := exit_status s OR PV_ERROREXIT_TRANSFER,
        eof_out := True,
        transfer := (transfer s)\<lparr>written := -1\<rparr>\<rparr>"

text \<open>Lines 787-1001: what \<open>pv__transfer_write\<close> does with \<open>nwritten\<close> and \<open>write_errno\<close>.\<close>

definition write_outcome :: "sysenv \<Rightarrow> (nat \<Rightarrow> char) \<Rightarrow> int \<Rightarrow> errno option \<Rightarrow> pvstate \<Rightarrow> int \<times> pvstate" where
  "write_outcome env buf nwritten write_errno s =
     (if nwritten > 0 then (1, write_completed env buf nwritten s)
      else if nwritten = 0 \<or> write_errno = Some EINTR \<or> write_errno = Some EAGAIN
        then (0, emit BriefWait s)
      else if write_errno = Some EPIPE then (0, output_pipe_closed s)
      else (1, write_failed s))"

definition pv__transfer_write :: "sysenv \<Rightarrow> pvstate \<Rightarrow> int \<times> pvstate" where
  "pv__transfer_write env s =
     (case transfer_buffer (transfer s) of
        None \<Rightarrow> (1, no_transfer_buffer s)
      | Some buf \<Rightarrow>
          (case write_attempt env buf s of
             (nwritten, write_errno, s1) \<Rightarrow> write_outcome env buf nwritten write_errno s1))"

section \<open>pv_transfer (transfer.c)\<close>

text \<open>
  \<open>pv_memrchr\<close> (string.c): the offset of the last byte equal to \<open>match\<close> among the
  \<open>length\<close> bytes that start at \<open>start\<close>, or \<open>None\<close> for NULL.
\<close>

fun pv_memrchr :: "(nat \<Rightarrow> char) \<Rightarrow> nat \<Rightarrow> char \<Rightarrow> nat \<Rightarrow> nat option" where
  "pv_memrchr buf start match 0 = None"
| "pv_memrchr buf start match (Suc n) =
     (if buf (start + n) = match then Some n else pv_memrchr buf start match n)"

text \<open>Lines 1117-1181: what \<open>pv_transfer\<close> prepares before looking at the descriptors.\<close>

definition reset_error_skipping :: "int \<Rightarrow> pvstate \<Rightarrow> pvstate" where
  "reset_error_skipping fd s =
     (if fd \<noteq> last_read_skip_fd (transfer s) then
        s\<lparr>transfer := (transfer s)
             \<lparr>last_read_skip_fd := fd, read_errors_in_a_row := 0,
              read_error_warning_shown := False\<rparr>\<rparr>
      else s)"

definition grow_buffer :: "sysenv \<Rightarrow> pvstate \<Rightarrow> pvstate" where
  "grow_buffer env s =
     (if buffer_size (transfer s) < target_buffer_size (control s) then
        (if \<not> realloc_ok env then
           s\<lparr>control := (control s)\<lparr>target_buffer_size := buffer_size (transfer s)\<rparr>\<rparr>
         else
           s\<lparr>transfer := (transfer s)
                \<lparr>transfer_buffer :=
                   map_option (\<lambda>old i. if i < buffer_size (transfer s) then old i else CHR 0x00)
                     (transfer_buffer (transfer s)),
                 buffer_size := target_buffer_size (control s)\<rparr>\<rparr>)
      else s)"

text \<open>Lines 1263-1277: in line mode, only write up to and including the last newline.\<close>

definition truncate_to_last_newline :: "pvstate \<Rightarrow> pvstate" where
  "truncate_to_last_newline s =
     (if to_write (transfer s) > 0 \<and> linemode (control s) \<and> \<not> null_terminated_lines (control s)
      then
        (case transfer_buffer (transfer s) of
           None \<Rightarrow> s
         | Some buf \<Rightarrow>
             (case pv_memrchr buf (write_position (transfer s)) (CHR 0x0A)
                     (to_size_t (to_write (transfer s))) of
                None \<Rightarrow> s
              | Some e \<Rightarrow> s\<lparr>transfer := (transfer s)\<lparr>to_write := int e + 1\<rparr>\<rparr>))
      else s)"

text \<open>Lines 1298-1316 (MAXIMISE_BUFFER_FILL): rotate the written bytes out of the buffer.\<close>

definition maximise_buffer_fill :: "pvstate \<Rightarrow> pvstate" where
  "maximise_buffer_fill s =
     (let wp = write_position (transfer s); rp = read_position (transfer s)
      in if wp > 0 then
           (if wp < rp then
              s\<lparr>transfer := (transfer s)
                   \<lparr>transfer_buffer :=
                      map_option (\<lambda>old i. if i < rp - wp then old (i + wp) else old i)
                        (transfer_buffer (transfer s)),
                    read_position := rp - wp, write_position := 0\<rparr>\<rparr>
            else s\<lparr>transfer := (transfer s)\<lparr>write_position := 0, read_position := 0\<rparr>\<rparr>)
         else s)"

text \<open>Lines 1195-1218: which descriptors to wait for, and how much may be written.\<close>

definition check_read_fd :: "int \<Rightarrow> pvstate \<Rightarrow> int" where
  "check_read_fd fd s =
     (if \<not> eof_in s \<and> read_position (transfer s) < buffer_size (transfer s) then fd else -1)"

definition plan_write :: "int \<Rightarrow> pvstate \<Rightarrow> pvstate" where
  "plan_write allowed s =
     s\<lparr>transfer := (transfer s)
          \<lparr>to_write :=
             (let tw = to_off_t (to_size_t (int (read_position (transfer s))
                                            - int (write_position (transfer s))))
              in if (rate_limit (control s) > 0 \<or> allowed > 0) \<and> tw > allowed
                 then allowed else tw)\<rparr>\<rparr>"

definition check_write_fd :: "pvstate \<Rightarrow> int" where
  "check_write_fd s =
     (if \<not> eof_out s \<and> to_write (transfer s) > 0 then output_fd (control s) else -1)"

text \<open>Lines 1254-1261: read when there is data to read.\<close>

definition read_phase :: "sysenv \<Rightarrow> int \<Rightarrow> int \<Rightarrow> bool \<Rightarrow> pvstate \<Rightarrow> int \<times> pvstate" where
  "read_phase env fd allowed ready_to_read s =
     (if ready_to_read then pv__transfer_read env fd allowed s else (1, s))"

text \<open>Lines 1284-1297: write when the output is ready and there is something to write.\<close>

definition write_phase :: "sysenv \<Rightarrow> bool \<Rightarrow> pvstate \<Rightarrow> int \<times> pvstate" where
  "write_phase env ready_to_write s =
     (if ready_to_write \<and> \<not> splice_used (transfer s)
         \<and> read_position (transfer s) > write_position (transfer s)
         \<and> to_write (transfer s) > 0 \<and> lineswritten s \<noteq> None
      then pv__transfer_write env s else (1, s))"

text \<open>Lines 1246-1323: after \<open>is_data_ready\<close> has returned \<open>n \<ge> 0\<close>.\<close>

definition after_select :: "sysenv \<Rightarrow> int \<Rightarrow> int \<Rightarrow> nat \<Rightarrow> pvstate \<Rightarrow> int \<times> pvstate" where
  "after_select env fd allowed n s =
     (case read_phase env fd allowed (n > 0 \<and> check_read_fd fd s \<ge> 0 \<and> select_in env)
             (s\<lparr>transfer := (transfer s)\<lparr>written := 0\<rparr>\<rparr>) of
        (rd, s3) \<Rightarrow>
          if rd = 0 then (0, s3)
          else
            (case write_phase env (n > 0 \<and> check_write_fd s \<ge> 0 \<and> select_out env)
                    (truncate_to_last_newline s3) of
               (wr, s5) \<Rightarrow>
                 if wr = 0 then (0, s5)
                 else (written (transfer (maximise_buffer_fill s5)), maximise_buffer_fill s5)))"

text \<open>Lines 1224-1244: \<open>is_data_ready\<close> failed.\<close>

definition select_failed :: "errno \<Rightarrow> pvstate \<Rightarrow> int \<times> pvstate" where
  "select_failed e s =
     (if e = EINTR then (0, s\<lparr>errno := e\<rparr>)
      else (-1, (emit (PvError SelectCallFailed) (s\<lparr>errno := e\<rparr>))
                  \<lparr>exit_status := exit_status s OR PV_ERROREXIT_TRANSFER\<rparr>))"

text \<open>Lines 1183-1323: from the end-of-file check to the return.\<close>

definition transfer_io :: "sysenv \<Rightarrow> int \<Rightarrow> int \<Rightarrow> pvstate \<Rightarrow> int \<times> pvstate" where
  "transfer_io env fd allowed s =
     (if eof_in s \<and> eof_out s then (0, s)
      else
        (case select_res env of
           Fail e \<Rightarrow> select_failed e (plan_write allowed s)
         | Ok n \<Rightarrow> after_select env fd allowed n (plan_write allowed s)))"

text \<open>Lines 1090-1181: what \<open>pv_transfer\<close> prepares first.\<close>

definition direct_io_applied :: "pvstate \<Rightarrow> pvstate" where
  "direct_io_applied s =
     (if direct_io_changed (control s)
      then s\<lparr>control := (control s)\<lparr>direct_io_changed := False\<rparr>\<rparr> else s)"

definition allocation_failed :: "pvstate \<Rightarrow> pvstate" where
  "allocation_failed s =
     (emit (PvError BufferAllocationFailed) s)
       \<lparr>exit_status := exit_status s OR PV_ERROREXIT_MEMORY\<rparr>"

definition allocate_buffer :: "pvstate \<Rightarrow> pvstate" where
  "allocate_buffer s =
     (if transfer_buffer (transfer s) = None then
        s\<lparr>transfer := (transfer s)
             \<lparr>transfer_buffer := Some (\<lambda>_. CHR 0x00),
              buffer_size := target_buffer_size (control s)\<rparr>\<rparr>
      else s)"

definition clear_lineswritten :: "pvstate \<Rightarrow> pvstate" where
  "clear_lineswritten s =
     (if linemode (control s) \<and> lineswritten s \<noteq> None then s\<lparr>lineswritten := Some 0\<rparr> else s)"

definition pv_transfer :: "sysenv \<Rightarrow> int \<Rightarrow> int \<Rightarrow> pvstate \<Rightarrow> int \<times> pvstate" where
  "pv_transfer env fd allowed s =
     (if transfer_buffer (transfer s) = None \<and> \<not> alloc_ok env
      then (-1, allocation_failed (reset_error_skipping fd (direct_io_applied s)))
      else
        transfer_io env fd allowed
          (clear_lineswritten
             (grow_buffer env (allocate_buffer (reset_error_skipping fd (direct_io_applied s))))))"

section \<open>The main loop after pv_transfer has returned (loop.c)\<close>

text \<open>
  Lines 384-484 of \<open>pv_main_loop\<close>, with FIONREAD defined. \<open>bytes_written\<close> is what
  \<open>pv_transfer\<close> returned (the loop's \<open>written\<close>) and \<open>lines\<close> the loop's own \<open>lineswritten\<close>;
  \<open>output_is_pipe\<close> was determined once before the loop. The ioctl answers with a byte
  count (a C int), or fails (\<open>None\<close>).
\<close>

text \<open>Lines 392-400: add what was written to the running total.\<close>

definition add_to_total :: "int \<Rightarrow> int \<Rightarrow> pvstate \<Rightarrow> pvstate" where
  "add_to_total bytes_written lines s =
     s\<lparr>transfer := (transfer s)
          \<lparr>total_written :=
             total_written (transfer s) + (if linemode (control s) then lines else bytes_written)\<rparr>\<rparr>"

text \<open>Lines 402-429: how much is sitting in the pipe buffer.\<close>

definition look_into_pipe :: "bool \<Rightarrow> int option \<Rightarrow> pvstate \<Rightarrow> pvstate" where
  "look_into_pipe output_is_pipe fionread s =
     (if output_is_pipe then
        s\<lparr>transfer := (transfer s)
             \<lparr>written_but_not_consumed :=
                (if pipe_closed s \<noteq> 0 then 0
                 else (case fionread of
                         Some nbytes \<Rightarrow> if nbytes \<ge> 0 then to_size_t nbytes else 0
                       | None \<Rightarrow> 0))\<rparr>\<rparr>
      else s)"

text \<open>
  Lines 467-477: walk backwards through the remembered line positions, counting those
  after the last consumed position. The inner loop of the source brings the index back
  below the capacity; the capacity is \<open>MAX_LINE_POSITIONS\<close> whenever there is an array.
\<close>

function lines_not_consumed :: "pvtransfer \<Rightarrow> (nat \<Rightarrow> int) \<Rightarrow> int \<Rightarrow> nat \<Rightarrow> nat \<Rightarrow> nat" where
  "lines_not_consumed t positions last_consumed_position line_from_end counted =
     (if line_from_end < line_positions_length t then
        (if positions ((line_positions_head t + line_positions_capacity t - line_from_end - 1)
                         mod line_positions_capacity t) \<le> last_consumed_position
         then counted
         else lines_not_consumed t positions last_consumed_position
                (line_from_end + 1) (counted + 1))
      else counted)"
  by pat_completeness auto
termination
  by (relation "measure (\<lambda>(t, p, l, i, c). line_positions_length t - i)") auto

text \<open>Lines 431-484: the amount transferred to the receiver.\<close>

definition set_transferred :: "bool \<Rightarrow> pvstate \<Rightarrow> pvstate" where
  "set_transferred output_is_pipe s =
     s\<lparr>transfer := (transfer s)
          \<lparr>transferred :=
             (if output_is_pipe \<and> \<not> linemode (control s) then
                total_written (transfer s) - int (written_but_not_consumed (transfer s))
              else if output_is_pipe \<and> linemode (control s)
                      \<and> written_but_not_consumed (transfer s) > 0 then
                (case line_positions (transfer s) of
                   None \<Rightarrow> total_written (transfer s)
                 | Some positions \<Rightarrow>
                     total_written (transfer s)
                       - int (lines_not_consumed (transfer s) positions
                                (last_output_position (transfer s)
                                   - int (written_but_not_consumed (transfer s))) 0 0))
              else total_written (transfer s))\<rparr>\<rparr>"

text \<open>
  Lines 384-484. A negative return of \<open>pv_transfer\<close> ends the loop with the exit status (\<open>Inl\<close>);
  otherwise the loop goes on with the new state.
\<close>

definition after_pv_transfer :: "bool \<Rightarrow> int option \<Rightarrow> int \<Rightarrow> int \<Rightarrow> pvstate \<Rightarrow> int + pvstate" where
  "after_pv_transfer output_is_pipe fionread bytes_written lines s =
     (if bytes_written < 0 then Inl (exit_status s)
      else Inr (set_transferred output_is_pipe
                  (look_into_pipe output_is_pipe fionread (add_to_total bytes_written lines s))))"

section \<open>Floating-point numbers\<close>

text \<open>
  A \<open>double\<close> is a binary64 number. A \<open>long double\<close> is what the target makes of it: the
  extended format of the x87 with a mantissa of 64 bits on x86, binary64 on others. The
  numbers are modelled as the real numbers they stand for, and every operation of the
  source is followed by the rounding to its format: to nearest, ties to even. Overflow,
  subnormal numbers, infinities and NaN are left out.
\<close>

function bit_length :: "int \<Rightarrow> nat" where
  "bit_length n = (if n \<le> 0 then 0 else Suc (bit_length (n div 2)))"
  by pat_completeness auto
termination
  by (relation "measure nat") auto

declare bit_length.simps [simp del]

text \<open>The exponent \<open>e\<close> of a number other than 0: \<open>2 ^ e \<le> \<bar>x\<bar> < 2 ^ (e + 1)\<close>.\<close>

definition fp_exponent :: "real \<Rightarrow> int" where
  "fp_exponent x =
     (if 1 \<le> \<bar>x\<bar> then int (bit_length \<lfloor>\<bar>x\<bar>\<rfloor>) - 1
      else - int (bit_length (\<lceil>1 / \<bar>x\<bar>\<rceil> - 1)))"

definition round_half_even :: "real \<Rightarrow> int" where
  "round_half_even x =
     (if x - of_int \<lfloor>x\<rfloor> < 1 / 2 then \<lfloor>x\<rfloor>
      else if x - of_int \<lfloor>x\<rfloor> > 1 / 2 then \<lfloor>x\<rfloor> + 1
      else if even \<lfloor>x\<rfloor> then \<lfloor>x\<rfloor> else \<lfloor>x\<rfloor> + 1)"

text \<open>Rounding to a mantissa of \<open>p\<close> bits.\<close>

definition fp_round :: "nat \<Rightarrow> real \<Rightarrow> real" where
  "fp_round p x =
     (if x = 0 then 0
      else of_int (round_half_even (x / 2 powi (fp_exponent x + 1 - int p)))
             * 2 powi (fp_exponent x + 1 - int p))"

definition binary64 :: "real \<Rightarrow> real" where
  "binary64 = fp_round 53"

definition x87_extended :: "real \<Rightarrow> real" where
  "x87_extended = fp_round 64"

section \<open>The calculated state of the transfer (calc.c, number.c)\<close>

text \<open>
  The \<open>long double\<close> members of \<open>struct pvtransfercalc_s\<close> and the \<open>double\<close> percentage.
  The rounding to \<open>long double\<close> is the parameter \<open>ld\<close> of the functions below; the
  constants of the source are \<open>double\<close> constants. The history is the circular buffer of
  \<open>(elapsed_sec, transferred)\<close> pairs, \<open>None\<close> for a NULL pointer.
\<close>

record pvtransfercalc =
  transfer_rate :: real
  average_rate :: real
  prev_elapsed_sec :: real
  prev_rate :: real
  prev_trans :: real
  current_avg_rate :: real
  rate_min :: real
  rate_max :: real
  rate_sum :: real
  ratesquared_sum :: real
  measurements_taken :: nat
  history :: "(nat \<Rightarrow> real \<times> int) option"
  history_len :: nat
  history_first :: nat
  history_last :: nat
  prev_transferred :: int
  percentage :: real

text \<open>What \<open>pv_calculate_transfer_rate\<close> reads from the other structures.\<close>

record calc_inputs =
  elapsed_seconds :: real
  amount_transferred :: int
  total_size :: int
  count_bits :: bool
  history_interval :: nat
  initial_offset :: int

text \<open>
  \<open>pv_percentage\<close> (number.c lines 291-304): the conversion of the amount, the
  multiplication, the conversion of the total and the division each round to \<open>double\<close>.
\<close>

definition pv_percentage :: "int \<Rightarrow> int \<Rightarrow> real" where
  "pv_percentage amount total_amount =
     (if total_amount < 1 then 0
      else binary64 (binary64 (binary64 (real_of_int amount) * 100)
                       / binary64 (real_of_int total_amount)))"

text \<open>\<open>pv__update_average_rate_history\<close> (calc.c lines 20-67).\<close>

definition add_history_entry :: "pvtransfercalc \<Rightarrow> pvtransfercalc" where
  "add_history_entry calc =
     (let newest = (history_last calc + 1) mod history_len calc
      in calc\<lparr>history_last := newest,
              history_first :=
                (if newest = history_first calc
                 then (history_first calc + 1) mod history_len calc
                 else history_first calc)\<rparr>)"

definition average_over_history ::
    "(real \<Rightarrow> real) \<Rightarrow> (nat \<Rightarrow> real \<times> int) \<Rightarrow> nat \<Rightarrow> nat \<Rightarrow> real \<Rightarrow> real" where
  "average_over_history ld h oldest newest rate =
     (if oldest = newest then rate
      else
        (let bytes = snd (h newest) - snd (h oldest);
             seconds = ld (fst (h newest) - fst (h oldest))
         in ld (ld (real_of_int bytes)
                  / (if seconds < binary64 (1 / 1000000) \<and> seconds > - binary64 (1 / 1000000)
                     then binary64 (1 / 1000000) else seconds))))"

definition pv__update_average_rate_history ::
    "(real \<Rightarrow> real) \<Rightarrow> pvtransfercalc \<Rightarrow> calc_inputs \<Rightarrow> real \<Rightarrow> pvtransfercalc" where
  "pv__update_average_rate_history ld calc inp rate =
     (case history calc of
        None \<Rightarrow> calc
      | Some h \<Rightarrow>
          (let last_elapsed = fst (h (history_last calc))
           in if last_elapsed > 0
                 \<and> elapsed_seconds inp < ld (last_elapsed + real (history_interval inp))
              then calc
              else
                (let calc1 = (if last_elapsed > 0 then add_history_entry calc else calc);
                     h1 = h(history_last calc1 := (elapsed_seconds inp, amount_transferred inp))
                 in calc1\<lparr>history := Some h1,
                          current_avg_rate :=
                            average_over_history ld h1 (history_first calc1) (history_last calc1)
                              rate\<rparr>)))"

text \<open>Lines 97-135: the rate since the last update.\<close>

definition bytes_since_last :: "pvtransfercalc \<Rightarrow> calc_inputs \<Rightarrow> int" where
  "bytes_since_last calc inp =
     (if amount_transferred inp \<ge> 0 then amount_transferred inp - prev_transferred calc else 0)"

definition note_transferred :: "calc_inputs \<Rightarrow> pvtransfercalc \<Rightarrow> pvtransfercalc" where
  "note_transferred inp calc =
     (if amount_transferred inp \<ge> 0 then calc\<lparr>prev_transferred := amount_transferred inp\<rparr>
      else calc)"

definition time_since_last :: "(real \<Rightarrow> real) \<Rightarrow> pvtransfercalc \<Rightarrow> calc_inputs \<Rightarrow> real" where
  "time_since_last ld calc inp = ld (elapsed_seconds inp - prev_elapsed_sec calc)"

definition measure_rate ::
    "(real \<Rightarrow> real) \<Rightarrow> calc_inputs \<Rightarrow> real \<Rightarrow> pvtransfercalc \<Rightarrow> pvtransfercalc" where
  "measure_rate ld inp rate calc =
     (let measured_rate = (if count_bits inp then ld (8 * rate) else rate)
      in calc\<lparr>prev_elapsed_sec := elapsed_seconds inp,
              prev_trans := 0,
              rate_min := (if measurements_taken calc < 1 \<or> measured_rate < rate_min calc
                           then measured_rate else rate_min calc),
              rate_max := (if measured_rate > rate_max calc then measured_rate else rate_max calc),
              rate_sum := ld (rate_sum calc + measured_rate),
              ratesquared_sum := ld (ratesquared_sum calc + ld (measured_rate * measured_rate)),
              measurements_taken := measurements_taken calc + 1\<rparr>)"

definition current_rate :: "(real \<Rightarrow> real) \<Rightarrow> pvtransfercalc \<Rightarrow> calc_inputs \<Rightarrow> real" where
  "current_rate ld calc inp =
     (if time_since_last ld calc inp \<le> binary64 (1 / 100) then prev_rate calc
      else ld (ld (ld (real_of_int (bytes_since_last calc inp)) + prev_trans calc)
                 / time_since_last ld calc inp))"

definition rate_step ::
    "(real \<Rightarrow> real) \<Rightarrow> calc_inputs \<Rightarrow> pvtransfercalc \<Rightarrow> pvtransfercalc" where
  "rate_step ld inp calc =
     (let rate = current_rate ld calc inp;
          calc1 = (if time_since_last ld calc inp \<le> binary64 (1 / 100)
                   then calc\<lparr>prev_trans :=
                               ld (prev_trans calc + ld (real_of_int (bytes_since_last calc inp)))\<rparr>
                   else measure_rate ld inp rate calc)
      in (note_transferred inp calc1)\<lparr>prev_rate := rate\<rparr>)"

text \<open>Lines 146-155: on the final update the rates are those of the whole transfer.\<close>

definition whole_transfer_rate :: "(real \<Rightarrow> real) \<Rightarrow> calc_inputs \<Rightarrow> real" where
  "whole_transfer_rate ld inp =
     ld (ld (ld (real_of_int (amount_transferred inp)) - ld (real_of_int (initial_offset inp)))
           / (if elapsed_seconds inp < binary64 (1 / 1000000) then binary64 (1 / 1000000)
              else elapsed_seconds inp))"

text \<open>Lines 160-181: the percentage, a \<open>double\<close>.\<close>

definition next_percentage :: "calc_inputs \<Rightarrow> real \<Rightarrow> real \<Rightarrow> real" where
  "next_percentage inp rate old =
     (let p = (if total_size inp \<le> 0 then
                 (let q = (if rate > 0 then binary64 (old + 2) else old)
                  in if q > 199 then 0 else q)
               else pv_percentage (amount_transferred inp) (total_size inp));
          p1 = (if p < 0 then 0 else p)
      in if p1 > 100000 then 100000 else p1)"

definition pv_calculate_transfer_rate ::
    "(real \<Rightarrow> real) \<Rightarrow> pvtransfercalc \<Rightarrow> calc_inputs \<Rightarrow> bool \<Rightarrow> pvtransfercalc" where
  "pv_calculate_transfer_rate ld calc inp final =
     (let calc1 = pv__update_average_rate_history ld (rate_step ld inp calc) inp
                    (current_rate ld calc inp);
          rate = (if final then whole_transfer_rate ld inp else current_rate ld calc inp);
          average = (if final then whole_transfer_rate ld inp else current_avg_rate calc1)
      in calc1\<lparr>transfer_rate := rate,
               average_rate := average,
               percentage := next_percentage inp rate (percentage calc1)\<rparr>)"

section \<open>Remote control: pv_remote_set (remote.c, signal.c)\<close>

text \<open>
  The SIGUSR2 flag and the sender's pid are written by the signal handler and read by
  \<open>pv_sigusr2_received\<close> (signal.c).
\<close>

record pvsignal =
  rxusr2 :: int
  sender_usr2 :: int

definition pv_sig_usr2 :: "int \<Rightarrow> pvsignal \<Rightarrow> pvsignal" where
  "pv_sig_usr2 si_pid sg = sg\<lparr>sender_usr2 := si_pid, rxusr2 := 1\<rparr>"

text \<open>The result is the return value, the value of \<open>*pid\<close> afterwards, and the new state.\<close>

definition pv_sigusr2_received :: "pvsignal \<Rightarrow> int \<Rightarrow> bool \<times> int \<times> pvsignal" where
  "pv_sigusr2_received sg pid =
     (if rxusr2 sg = 0 then (False, pid, sg) else (True, sender_usr2 sg, sg\<lparr>rxusr2 := 0\<rparr>))"

text \<open>
  What the sender meets: whether each system call succeeds, and the pids of the processes
  whose SIGUSR2 arrives during each 10 ms wait, in order of arrival.
\<close>

record remote_env =
  probe_ok :: bool
  open_ok :: bool
  fwrite_ok :: bool
  fclose_ok :: bool
  signal_ok :: bool
  remove_ok :: bool
  arrivals :: "nat \<Rightarrow> int list"

datatype remote_event =
    ProbeRemote int
  | OpenControlFile
  | WriteControlFile
  | CloseControlFile
  | RemoveControlFile
  | SignalRemote int
  | WaitTenMilliseconds
  | RemoteError

record remote_state =
  signal_state :: pvsignal
  remote_trace :: "remote_event list"

definition remote_log :: "remote_event \<Rightarrow> remote_state \<Rightarrow> remote_state" where
  "remote_log e st = st\<lparr>remote_trace := remote_trace st @ [e]\<rparr>"

text \<open>The signals that arrive during one wait run the handler one after the other.\<close>

definition deliver :: "int list \<Rightarrow> remote_state \<Rightarrow> remote_state" where
  "deliver pids st = st\<lparr>signal_state := fold pv_sig_usr2 pids (signal_state st)\<rparr>"

text \<open>
  Lines 198-215: the loop waiting for the acknowledgement. \<open>poll\<close> counts the waits
  made so far; the result is \<open>received\<close> and the new state.
\<close>

function wait_for_ack ::
    "remote_env \<Rightarrow> int \<Rightarrow> int \<Rightarrow> nat \<Rightarrow> bool \<Rightarrow> int \<Rightarrow> remote_state \<Rightarrow> bool \<times> remote_state" where
  "wait_for_ack env remote timeout poll received signal_sender st =
     (if timeout > 10000 \<and> \<not> received then
        (case pv_sigusr2_received
                (signal_state (deliver (arrivals env poll) (remote_log WaitTenMilliseconds st)))
                signal_sender of
           (got, sender, sg) \<Rightarrow>
             wait_for_ack env remote (timeout - 10000) (poll + 1) (got \<and> sender = remote) sender
               ((deliver (arrivals env poll) (remote_log WaitTenMilliseconds st))
                  \<lparr>signal_state := sg\<rparr>))
      else (received, st))"
  by pat_completeness auto
termination
  by (relation "measure (\<lambda>(env, remote, timeout, poll, received, sender, st). nat timeout)") auto

text \<open>Lines 217-239: remove the control file and return.\<close>

definition finish_remote_set :: "remote_env \<Rightarrow> bool \<Rightarrow> remote_state \<Rightarrow> int \<times> remote_state" where
  "finish_remote_set env received st =
     (let st1 = remote_log RemoveControlFile st;
          st2 = (if remove_ok env then st1 else remote_log RemoteError st1)
      in if received then (0, st2) else (PV_ERROREXIT_REMOTE_OR_PID, remote_log RemoteError st2))"

text \<open>Lines 180-215: clear the flag, signal the receiver, and wait.\<close>

definition signal_and_wait :: "remote_env \<Rightarrow> int \<Rightarrow> remote_state \<Rightarrow> int \<times> remote_state" where
  "signal_and_wait env remote st =
     (case pv_sigusr2_received (signal_state st) 0 of
        (got, sender, sg) \<Rightarrow>
          if \<not> signal_ok env then
            (PV_ERROREXIT_REMOTE_OR_PID,
             remote_log RemoveControlFile
               (remote_log RemoteError (remote_log (SignalRemote remote) (st\<lparr>signal_state := sg\<rparr>))))
          else
            (case wait_for_ack env remote 1100000 0 False sender
                    (remote_log (SignalRemote remote) (st\<lparr>signal_state := sg\<rparr>)) of
               (received, st1) \<Rightarrow> finish_remote_set env received st1))"

text \<open>
  \<open>pv_remote_set\<close>. What is copied into the message (lines 95-141) is data only and is
  left out; the control file is the sender's own, named after its pid.
\<close>

definition pv_remote_set :: "remote_env \<Rightarrow> int \<Rightarrow> remote_state \<Rightarrow> int \<times> remote_state" where
  "pv_remote_set env remote st =
     (if \<not> probe_ok env then
        (PV_ERROREXIT_REMOTE_OR_PID, remote_log RemoteError (remote_log (ProbeRemote remote) st))
      else if \<not> open_ok env then
        (PV_ERROREXIT_REMOTE_OR_PID,
         remote_log RemoteError (remote_log OpenControlFile (remote_log (ProbeRemote remote) st)))
      else if \<not> fwrite_ok env then
        (PV_ERROREXIT_REMOTE_OR_PID,
         remote_log RemoveControlFile (remote_log CloseControlFile (remote_log RemoteError
           (remote_log WriteControlFile (remote_log OpenControlFile
              (remote_log (ProbeRemote remote) st))))))
      else if \<not> fclose_ok env then
        (PV_ERROREXIT_REMOTE_OR_PID,
         remote_log RemoveControlFile (remote_log RemoteError (remote_log CloseControlFile
           (remote_log WriteControlFile (remote_log OpenControlFile
              (remote_log (ProbeRemote remote) st))))))
      else
        signal_and_wait env remote
          (remote_log CloseControlFile (remote_log WriteControlFile (remote_log OpenControlFile
             (remote_log (ProbeRemote remote) st)))))"

text \<open>The events a call of \<open>pv_remote_set\<close> has added.\<close>

definition new_remote_events :: "remote_state \<Rightarrow> remote_state \<Rightarrow> remote_event list" where
  "new_remote_events st st' = drop (length (remote_trace st)) (remote_trace st')"

text \<open>
  The acknowledgement is seen at wait number \<open>i\<close>: a SIGUSR2 arrived during it and the
  last one came from the remote process.
\<close>

definition acknowledged_at :: "remote_env \<Rightarrow> int \<Rightarrow> nat \<Rightarrow> bool" where
  "acknowledged_at env remote i \<longleftrightarrow> arrivals env i \<noteq> [] \<and> last (arrivals env i) = remote"

text \<open>
  The acknowledgement as the specification words it: during one of the 109 waits, a
  SIGUSR2 from the remote process has arrived.
\<close>

definition ack_arrived_in_time :: "remote_env \<Rightarrow> int \<Rightarrow> bool" where
  "ack_arrived_in_time env remote \<longleftrightarrow> (\<exists>i < 109. remote \<in> set (arrivals env i))"

section \<open>The ETA formatter (format/eta.c, display.c)\<close>

subsection \<open>The arguments of a formatter\<close>

text \<open>
  \<open>struct pvdisplay_segment_s\<close>, without the string parameter, which formatters only read.
  \<open>type\<close> is \<open>-1\<close> for a static string and otherwise an index into the table of
  components; the three sizes and the offset are 16-bit unsigned numbers.
\<close>

record pvdisplay_segment =
  seg_type :: int
  parameter :: int
  chosen_size :: nat
  seg_offset :: nat
  seg_bytes :: nat
  seg_width :: nat

text \<open>
  \<open>struct pvformatter_args_s\<close>: the segment it points to, the buffer being built with its
  size and the write position in it, and the members of the display, the control, the
  transfer and the calculated state that \<open>pv_formatter_eta\<close> reads through its pointers.
\<close>

record pvformatter_args =
  final_update :: bool
  display_initial_offset :: int
  control_size :: int
  transfer_transferred :: int
  calc_current_avg_rate :: real
  segment :: pvdisplay_segment
  buffer :: "nat \<Rightarrow> char"
  args_buffer_size :: nat
  offset :: nat

subsection \<open>Arithmetic on \<open>long\<close> and \<open>off_t\<close>\<close>

text \<open>
  Both types are 64-bit and signed. A difference that leaves the range, and the conversion
  of a floating-point number whose integral part leaves it, are undefined in C: the result
  is \<open>None\<close>. The conversion drops the fraction.
\<close>

definition off_t_diff :: "int \<Rightarrow> int \<Rightarrow> int option" where
  "off_t_diff a b = (if - (2 ^ 63) \<le> a - b \<and> a - b < 2 ^ 63 then Some (a - b) else None)"

definition long_of_real :: "real \<Rightarrow> int option" where
  "long_of_real x =
     (let t = (if x < 0 then \<lceil>x\<rceil> else \<lfloor>x\<rfloor>)
      in if - (2 ^ 63) \<le> t \<and> t < 2 ^ 63 then Some t else None)"

text \<open>The operators \<open>/\<close> and \<open>%\<close> of C on signed integers: the quotient is rounded towards 0.\<close>

definition c_div :: "int \<Rightarrow> int \<Rightarrow> int" where
  "c_div a b = sgn a * sgn b * (\<bar>a\<bar> div \<bar>b\<bar>)"

definition c_mod :: "int \<Rightarrow> int \<Rightarrow> int" where
  "c_mod a b = a - b * c_div a b"

subsection \<open>\<open>pv_bound_long\<close> and \<open>pv_seconds_remaining\<close> (display.c lines 226-247)\<close>

definition pv_bound_long :: "int \<Rightarrow> int \<Rightarrow> int \<Rightarrow> int" where
  "pv_bound_long x lo hi = (if x < lo then lo else if x > hi then hi else x)"

text \<open>
  The rate is a \<open>long double\<close> and \<open>0.001\<close> a \<open>double\<close> constant; the conversion of the
  amount left and the division round to \<open>long double\<close>, which is the parameter \<open>ld\<close>.
\<close>

definition pv_seconds_remaining :: "(real \<Rightarrow> real) \<Rightarrow> int \<Rightarrow> int \<Rightarrow> real \<Rightarrow> int option" where
  "pv_seconds_remaining ld so_far total_amount rate =
     (if so_far < 1 \<or> rate < binary64 (1 / 1000) then Some 0
      else (case off_t_diff total_amount so_far of
              None \<Rightarrow> None
            | Some amount_left \<Rightarrow> long_of_real (ld (ld (real_of_int amount_left) / rate))))"

subsection \<open>What \<open>printf\<close> writes for a \<open>long\<close>\<close>

fun decimal :: "nat \<Rightarrow> string" where
  "decimal n =
     (if n < 10 then [''0123456789'' ! n]
      else decimal (n div 10) @ [''0123456789'' ! (n mod 10)])"

declare decimal.simps [simp del]

text \<open>The conversions \<open>%ld\<close> and \<open>%02ld\<close>.\<close>

definition show_ld :: "int \<Rightarrow> string" where
  "show_ld n = (if n < 0 then CHR ''-'' # decimal (nat (- n)) else decimal (nat n))"

definition show_02ld :: "int \<Rightarrow> string" where
  "show_02ld n =
     (if n < 0 then CHR ''-'' # replicate (1 - length (decimal (nat (- n)))) CHR ''0''
                     @ decimal (nat (- n))
      else replicate (2 - length (decimal (nat n))) CHR ''0'' @ decimal (nat n))"

subsection \<open>\<open>pv_formatter_segmentcontent\<close> (display.c lines 485-506)\<close>

definition store_content :: "nat \<Rightarrow> string \<Rightarrow> (nat \<Rightarrow> char) \<Rightarrow> nat \<Rightarrow> char" where
  "store_content pos d f = (\<lambda>i. if pos \<le> i \<and> i < pos + length d then d ! (i - pos) else f i)"

definition pv_formatter_segmentcontent ::
    "string \<Rightarrow> pvformatter_args \<Rightarrow> nat \<times> pvformatter_args" where
  "pv_formatter_segmentcontent content args =
     (let bytes0 = length content mod 65536;
          bytes1 = (if offset args \<ge> args_buffer_size args then 0 else bytes0);
          bytes = (if offset args + bytes1 \<ge> args_buffer_size args then 0 else bytes1);
          args1 = args\<lparr>segment := (segment args)\<lparr>seg_offset := offset args, seg_bytes := bytes\<rparr>\<rparr>
      in if bytes = 0 then (0, args1)
         else (bytes, args1\<lparr>buffer := store_content (offset args) (take bytes content) (buffer args)\<rparr>))"

subsection \<open>\<open>pv_formatter_eta\<close> (format/eta.c lines 17-72)\<close>

text \<open>Lines 33-41: the number of seconds, bounded.\<close>

definition eta_seconds :: "(real \<Rightarrow> real) \<Rightarrow> pvformatter_args \<Rightarrow> int option" where
  "eta_seconds ld args =
     (case off_t_diff (transfer_transferred args) (display_initial_offset args) of
        None \<Rightarrow> None
      | Some so_far \<Rightarrow>
          (case off_t_diff (control_size args) (display_initial_offset args) of
             None \<Rightarrow> None
           | Some total_amount \<Rightarrow>
               map_option (\<lambda>eta. pv_bound_long eta 0 360000000)
                 (pv_seconds_remaining ld so_far total_amount (calc_current_avg_rate args))))"

text \<open>
  Lines 48-57: what \<open>pv_snprintf\<close> leaves in the 128 bytes of \<open>content\<close>. \<open>label\<close> is the
  translation of \<open>ETA\<close> that gettext returns.
\<close>

definition eta_content :: "string \<Rightarrow> int \<Rightarrow> string" where
  "eta_content label eta =
     take 127
       (if eta > 86400 then
          take 16 label @ '' '' @ show_ld (c_div eta 86400) @ '':''
            @ show_02ld (c_mod (c_div eta 3600) 24) @ '':''
            @ show_02ld (c_mod (c_div eta 60) 60) @ '':'' @ show_02ld (c_mod eta 60)
        else
          take 16 label @ '' '' @ show_ld (c_div eta 3600) @ '':''
            @ show_02ld (c_mod (c_div eta 60) 60) @ '':'' @ show_02ld (c_mod eta 60))"

text \<open>Lines 64-69: on the final update every character is overwritten by a space.\<close>

definition erase :: "string \<Rightarrow> string" where
  "erase content = map (\<lambda>c. CHR '' '') content"

definition pv_formatter_eta ::
    "(real \<Rightarrow> real) \<Rightarrow> string \<Rightarrow> pvformatter_args \<Rightarrow> (nat \<times> pvformatter_args) option" where
  "pv_formatter_eta ld label args =
     (if control_size args < 1 then Some (0, args)
      else if args_buffer_size args = 0 then Some (0, args)
      else map_option
             (\<lambda>eta. pv_formatter_segmentcontent
                       (if final_update args then erase (eta_content label eta)
                        else eta_content label eta) args)
             (eta_seconds ld args))"

text \<open>The bytes of the buffer that belong to the segment of the arguments.\<close>

definition segment_text :: "pvformatter_args \<Rightarrow> string" where
  "segment_text args =
     map (buffer args)
       [seg_offset (segment args) ..< seg_offset (segment args) + seg_bytes (segment args)]"

subsection \<open>The estimate as the specification words it\<close>

text \<open>
  The remaining amount divided by the current average rate, clamped to the range from 0 to
  360000000 seconds.
\<close>

definition eta_as_specified :: "int \<Rightarrow> int \<Rightarrow> real \<Rightarrow> real" where
  "eta_as_specified total_amount so_far rate =
     max 0 (min 360000000 (real_of_int (total_amount - so_far) / rate))"

text \<open>
  The text: the label, then hours, minutes and seconds, with a day count in front exactly
  when the estimate exceeds 86400 seconds.
\<close>

definition eta_text_as_specified :: "string \<Rightarrow> int \<Rightarrow> string" where
  "eta_text_as_specified label eta =
     take 16 label @ '' ''
       @ (if 86400 < eta then show_ld (eta div 86400) @ '':'' @ show_02ld (eta div 3600 mod 24)
          else show_ld (eta div 3600))
       @ '':'' @ show_02ld (eta div 60 mod 60) @ '':'' @ show_02ld (eta mod 60)"

section \<open>The layout of the display line: pv_format (display.c)\<close>

text \<open>
  The table of components (lines 514-546), without the terminating entry: the string
  each one matches and whether it can scale with the width of the screen. The functions
  of the table are a parameter of the model.
\<close>

definition format_component_array :: "(string \<times> bool) list" where
  "format_component_array =
     [(''p'', True), (''{progress}'', True), (''{progress-amount-only}'', False),
      (''{progress-bar-only}'', True), (''{bar-plain}'', True), (''{bar-block}'', True),
      (''{bar-granular}'', True), (''{bar-shaded}'', True), (''t'', False),
      (''{timer}'', False), (''e'', False), (''{eta}'', False), (''I'', False),
      (''{fineta}'', False), (''r'', False), (''{rate}'', False), (''a'', False),
      (''{average-rate}'', False), (''b'', False), (''{bytes}'', False),
      (''{transferred}'', False), (''T'', False), (''{buffer-percent}'', False),
      (''A'', False), (''{last-written}'', False), (''L'', True),
      (''{previous-line}'', True), (''N'', False), (''{name}'', False),
      (''{sgr:colour,...}'', False)]"

definition component_dynamic :: "int \<Rightarrow> bool" where
  "component_dynamic t = snd (format_component_array ! nat t)"

text \<open>
  A formatter receives the arguments and returns the number of bytes it has added, having
  written through the pointers of the arguments. What formatters other than
  \<open>pv_formatter_eta\<close> read and write of the display is the extension of the record.
\<close>

type_synonym 'a formatter = "'a pvformatter_args_scheme \<Rightarrow> nat \<times> 'a pvformatter_args_scheme"

text \<open>
  The variables of \<open>pv_format\<close> during the two passes: the segments of the display
  (\<open>display->format\<close>, of which there are \<open>format_segment_count\<close>), \<open>formatter_info\<close>,
  and the two counters. \<open>formatter_calls\<close> is not in the source: it records, for each
  call of a formatter, the index of the segment and the width the segment had when the
  formatter was called. The counters are of type \<open>size_t\<close>; with at most 100 segments of
  16-bit width they cannot wrap.
\<close>

record 'a pvformat =
  format :: "pvdisplay_segment list"
  formatter_info :: "'a pvformatter_args_scheme"
  static_portion_width :: nat
  dynamic_segment_count :: nat
  formatter_calls :: "(nat \<times> nat) list"

definition set_width :: "nat \<Rightarrow> nat \<Rightarrow> 'a pvformat \<Rightarrow> 'a pvformat" where
  "set_width idx w st = st\<lparr>format := (format st)[idx := (format st ! idx)\<lparr>seg_width := w\<rparr>]\<rparr>"

text \<open>
  \<open>formatter_info.segment = segment; bytes_added = component->function(&formatter_info)\<close>.
  The segment is passed by pointer, so what the formatter has made of it is the segment
  of the display afterwards.
\<close>

definition call_formatter ::
    "(int \<Rightarrow> 'a formatter) \<Rightarrow> nat \<Rightarrow> 'a pvformat \<Rightarrow> nat \<times> 'a pvformat" where
  "call_formatter components idx st =
     (case components (seg_type (format st ! idx))
             ((formatter_info st)\<lparr>segment := format st ! idx\<rparr>) of
        (bytes_added, info) \<Rightarrow>
          (bytes_added,
           st\<lparr>format := (format st)[idx := segment info],
              formatter_info := info,
              formatter_calls := formatter_calls st @ [(idx, seg_width (format st ! idx))]\<rparr>))"

text \<open>\<open>formatter_info.offset += bytes_added\<close>, in 16 bits.\<close>

definition advance_offset :: "nat \<Rightarrow> 'a pvformat \<Rightarrow> 'a pvformat" where
  "advance_offset bytes_added st =
     st\<lparr>formatter_info :=
          (formatter_info st)\<lparr>offset := (offset (formatter_info st) + bytes_added) mod 65536\<rparr>\<rparr>"

definition add_static :: "nat \<Rightarrow> 'a pvformat \<Rightarrow> 'a pvformat" where
  "add_static w st = st\<lparr>static_portion_width := static_portion_width st + w\<rparr>"

text \<open>
  Lines 1106-1109: the displayed width of what the formatter has added, as \<open>pv_strwidth\<close>
  measures it, stored in 16 bits.
\<close>

definition written_width :: "(string \<Rightarrow> nat) \<Rightarrow> nat \<Rightarrow> 'a pvformat \<Rightarrow> nat" where
  "written_width strwidth bytes_added st =
     (if bytes_added > 0 then
        strwidth (map (buffer (formatter_info st))
                    [offset (formatter_info st) ..< offset (formatter_info st) + bytes_added])
          mod 65536
      else 0)"

text \<open>Lines 1090-1092 and 1147-1149.\<close>

definition fixed_width :: "pvdisplay_segment \<Rightarrow> bool" where
  "fixed_width seg = (\<not> (component_dynamic (seg_type seg) \<and> chosen_size seg = 0))"

text \<open>The body of the loop of the first pass (lines 1077-1112).\<close>

definition first_pass_segment ::
    "(int \<Rightarrow> 'a formatter) \<Rightarrow> (string \<Rightarrow> nat) \<Rightarrow> nat \<Rightarrow> 'a pvformat \<Rightarrow> 'a pvformat" where
  "first_pass_segment components strwidth idx st =
     (if seg_type (format st ! idx) = - 1 then add_static (seg_width (format st ! idx)) st
      else if \<not> fixed_width (format st ! idx) then
        st\<lparr>dynamic_segment_count := dynamic_segment_count st + 1\<rparr>
      else
        (case call_formatter components idx (set_width idx (chosen_size (format st ! idx)) st) of
           (bytes_added, st1) \<Rightarrow>
             add_static (written_width strwidth bytes_added st1)
               (advance_offset bytes_added
                  (set_width idx (written_width strwidth bytes_added st1) st1))))"

definition first_pass ::
    "(int \<Rightarrow> 'a formatter) \<Rightarrow> (string \<Rightarrow> nat) \<Rightarrow> 'a pvformat \<Rightarrow> 'a pvformat" where
  "first_pass components strwidth st =
     fold (first_pass_segment components strwidth) [0 ..< length (format st)]
       (st\<lparr>static_portion_width := 0, dynamic_segment_count := 0\<rparr>)"

text \<open>Lines 1119-1128, with \<open>control->width\<close> as \<open>width\<close>.\<close>

definition dynamic_segment_width :: "nat \<Rightarrow> 'a pvformat \<Rightarrow> nat" where
  "dynamic_segment_width width st =
     (let remaining = (if width > static_portion_width st
                       then width - static_portion_width st else 0)
      in if dynamic_segment_count st > 1 then remaining div dynamic_segment_count st
         else remaining)"

text \<open>
  The body of the loop of the second pass (lines 1134-1162). The width is stored in the
  16 bits of \<open>segment->width\<close>.
\<close>

definition second_pass_segment ::
    "(int \<Rightarrow> 'a formatter) \<Rightarrow> nat \<Rightarrow> nat \<Rightarrow> 'a pvformat \<Rightarrow> 'a pvformat" where
  "second_pass_segment components width_each idx st =
     (if seg_type (format st ! idx) = - 1 then add_static (seg_width (format st ! idx)) st
      else if fixed_width (format st ! idx) then st
      else
        (case call_formatter components idx (set_width idx (width_each mod 65536) st) of
           (bytes_added, st1) \<Rightarrow> advance_offset bytes_added st1))"

definition second_pass :: "(int \<Rightarrow> 'a formatter) \<Rightarrow> nat \<Rightarrow> 'a pvformat \<Rightarrow> 'a pvformat" where
  "second_pass components width st =
     fold (second_pass_segment components (dynamic_segment_width width st))
       [0 ..< length (format st)] st"

text \<open>The two passes of \<open>pv_format\<close> (lines 1069-1162).\<close>

definition pv_format_passes ::
    "(int \<Rightarrow> 'a formatter) \<Rightarrow> (string \<Rightarrow> nat) \<Rightarrow> nat \<Rightarrow> 'a pvformat \<Rightarrow> 'a pvformat" where
  "pv_format_passes components strwidth width st =
     second_pass components width (first_pass components strwidth st)"

text \<open>
  A segment is elastic when it is neither a static string nor of fixed width. The
  formatters of \<open>format/*.c\<close> assign to the parameter, the offset and the number of bytes
  of their segment only: they keep its type and its chosen size.
\<close>

definition elastic :: "pvdisplay_segment \<Rightarrow> bool" where
  "elastic seg = (seg_type seg \<noteq> - 1 \<and> \<not> fixed_width seg)"

definition keeps_kind :: "(int \<Rightarrow> 'a formatter) \<Rightarrow> bool" where
  "keeps_kind components =
     (\<forall>t args. seg_type (segment (snd (components t args))) = seg_type (segment args)
               \<and> chosen_size (segment (snd (components t args))) = chosen_size (segment args))"

text \<open>The type and the chosen size of a segment decide in which pass it is handled.\<close>

definition kind :: "pvdisplay_segment \<Rightarrow> int \<times> nat" where
  "kind seg = (seg_type seg, chosen_size seg)"

section \<open>What is observed of a run\<close>

text \<open>The events a call or a run has added to the trace.\<close>

definition new_events :: "pvstate \<Rightarrow> pvstate \<Rightarrow> event list" where
  "new_events s s' = drop (length (trace s)) (trace s')"

fun is_skip_trace :: "event \<Rightarrow> bool" where
  "is_skip_trace (PvError (SkippedPastReadError a b c)) = True"
| "is_skip_trace e = False"

fun is_splice_on :: "int \<Rightarrow> event \<Rightarrow> bool" where
  "is_splice_on fd (SpliceCall fd' n) = (fd' = fd)"
| "is_splice_on fd e = False"

text \<open>
  The warnings shown so far, less one if the warning flag is set: no step of the transfer
  engine changes this number while the input stays the same.
\<close>

definition warn_balance :: "pvstate \<Rightarrow> int" where
  "warn_balance s =
     int (count_list (trace s) (PvError ReadErrorsWarning))
       - (if read_error_warning_shown (transfer s) then 1 else 0)"

text \<open>
  What every step of a call keeps: the trace only grows, the skip-errors level and the
  descriptor under error skipping stay, the warning balance stays, at level 2 or more no
  skip is reported, and while \<open>f\<close> is remembered as the descriptor splice failed on it
  stays remembered and no splice on \<open>f\<close> is added.
\<close>

definition carried :: "int \<Rightarrow> pvstate \<Rightarrow> pvstate \<Rightarrow> bool" where
  "carried f s s' \<longleftrightarrow>
     prefix (trace s) (trace s')
     \<and> skip_errors (control s') = skip_errors (control s)
     \<and> last_read_skip_fd (transfer s') = last_read_skip_fd (transfer s)
     \<and> warn_balance s' = warn_balance s
     \<and> (2 \<le> skip_errors (control s) \<longrightarrow>
          filter is_skip_trace (trace s') = filter is_skip_trace (trace s))
     \<and> (splice_failed_fd (transfer s) = f \<longrightarrow>
          splice_failed_fd (transfer s') = f
          \<and> filter (is_splice_on f) (trace s') = filter (is_splice_on f) (trace s))"

text \<open>
  The main loop (loop.c) calls \<open>pv_transfer\<close> once per iteration on the current input.
  When an input has ended and has been written out, it moves to the next file and clears
  both end-of-file flags (lines 489-500). A run is a sequence of such steps.
\<close>

datatype loop_step = Transfer sysenv int int | NextFile

definition next_file :: "pvstate \<Rightarrow> pvstate" where
  "next_file s = (if eof_in s \<and> eof_out s then s\<lparr>eof_in := False, eof_out := False\<rparr> else s)"

fun run_step :: "loop_step \<Rightarrow> pvstate \<Rightarrow> pvstate" where
  "run_step (Transfer env fd allowed) s = snd (pv_transfer env fd allowed s)"
| "run_step NextFile s = next_file s"

fun transfer_run :: "loop_step list \<Rightarrow> pvstate \<Rightarrow> pvstate" where
  "transfer_run [] s = s"
| "transfer_run (step # rest) s = transfer_run rest (run_step step s)"

text \<open>A step that reads from the descriptor \<open>fd\<close>.\<close>

fun reads_from :: "int \<Rightarrow> loop_step \<Rightarrow> bool" where
  "reads_from fd (Transfer env fd' allowed) = (fd' = fd)"
| "reads_from fd NextFile = False"

text \<open>A step in which no splice on a descriptor other than \<open>f\<close> fails with EINVAL.\<close>

fun keeps_splice_failure :: "int \<Rightarrow> loop_step \<Rightarrow> bool" where
  "keeps_splice_failure f (Transfer env fd allowed) = (fd = f \<or> splice_res env \<noteq> Fail EINVAL)"
| "keeps_splice_failure f NextFile = True"

definition splice_kept :: "int \<Rightarrow> pvstate \<Rightarrow> pvstate \<Rightarrow> bool" where
  "splice_kept f s s' \<longleftrightarrow>
     prefix (trace s) (trace s')
     \<and> (splice_failed_fd (transfer s) = f \<longrightarrow>
          splice_failed_fd (transfer s') = f
          \<and> filter (is_splice_on f) (trace s') = filter (is_splice_on f) (trace s))"

section \<open>Concrete inputs\<close>

text \<open>
  A byte-mode transfer from descriptor 3 with a 16-byte buffer, error skipping at level 1
  with the adaptive block size, and splice switched off.
\<close>

definition example_control :: pvcontrol where
  "example_control =
     \<lparr>error_skip_block = 0, rate_limit = 0, target_buffer_size = 16, ctl_size = 0,
      skip_errors = 1, output_fd = 1, linemode = False, null_terminated_lines = False,
      no_splice = True, stop_at_size = False, sync_after_write = False,
      direct_io_changed = False, sparse_output = False, discard_input = False\<rparr>"

definition example_transfer :: pvtransfer where
  "example_transfer =
     \<lparr>transfer_buffer = Some (\<lambda>_. CHR 0x00), buffer_size = 16, read_position = 0,
      write_position = 0, to_write = 0, written = 0, written_but_not_consumed = 0,
      total_bytes_read = 0, total_written = 0, transferred = 0, line_positions = None,
      line_positions_capacity = 0, line_positions_length = 0, line_positions_head = 0,
      last_output_position = 0, read_errors_in_a_row = 0, last_read_skip_fd = 3,
      splice_failed_fd = -1, splice_used = False, read_error_warning_shown = False,
      output_not_seekable = False\<rparr>"

definition example_state :: pvstate where
  "example_state =
     \<lparr>control = example_control, transfer = example_transfer, exit_status = 0,
      pipe_closed = 0, showing_previous_line = False, eof_in = False, eof_out = False,
      lineswritten = Some 0, errno = EOTHER, trace = []\<rparr>"

text \<open>
  The input is at offset \<open>pos\<close>, the read there fails with EIO, and seeking works.
\<close>

definition unreadable_at :: "nat \<Rightarrow> sysenv" where
  "unreadable_at pos =
     \<lparr>alloc_ok = True, realloc_ok = True, select_res = Ok 1, select_in = True,
      select_out = False, splice_res = Fail EINVAL, fdatasync_res = Ok 0,
      read_res = ReadFail EIO, lseek_cur_res = Ok pos,
      lseek_set_res = (\<lambda>off. Ok (nat off)), lseek_retry_res = (\<lambda>off. Ok (nat off)),
      out_lseek_res = Fail EOTHER, calloc_ok = True, timer_set_ok = True,
      timer_clear_ok = True, write_res = Ok 0\<rparr>"

text \<open>The state after \<open>k\<close> consecutive failed reads at offsets 0, 1, ..., each one skipped.\<close>

fun after_errors :: "nat \<Rightarrow> pvstate" where
  "after_errors 0 = example_state"
| "after_errors (Suc k) = snd (pv__transfer_read (unreadable_at k) 3 0 (after_errors k))"

text \<open>The same transfer at skip-errors level 2, and as a new input for the engine.\<close>

definition level_two_state :: pvstate where
  "level_two_state = example_state\<lparr>control := example_control\<lparr>skip_errors := 2\<rparr>\<rparr>"

definition new_input_state :: pvstate where
  "new_input_state = example_state\<lparr>transfer := example_transfer\<lparr>last_read_skip_fd := 7\<rparr>\<rparr>"

definition two_failed_reads :: "loop_step list" where
  "two_failed_reads = [Transfer (unreadable_at 0) 3 0, Transfer (unreadable_at 1) 3 0]"

text \<open>
  The first input of a run on standard input, with the transfer state as
  \<open>pv_reset_transfer\<close> leaves it, and two failed reads of it. Then two inputs, one after
  the other, that are both opened on descriptor 3 and both fail.
\<close>

definition first_input_on_stdin :: pvstate where
  "first_input_on_stdin = example_state\<lparr>transfer := example_transfer\<lparr>last_read_skip_fd := 0\<rparr>\<rparr>"

definition two_failed_reads_of_stdin :: "loop_step list" where
  "two_failed_reads_of_stdin = [Transfer (unreadable_at 0) 0 0, Transfer (unreadable_at 1) 0 0]"

definition two_inputs_on_one_descriptor :: "loop_step list" where
  "two_inputs_on_one_descriptor = two_failed_reads @ [NextFile] @ two_failed_reads"

text \<open>
  A transfer with splice enabled, and inputs that are at their end and do not support
  splice: splice fails with EINVAL and the read that follows returns 0.
\<close>

definition splicing_state :: pvstate where
  "splicing_state = example_state\<lparr>control := example_control\<lparr>no_splice := False\<rparr>\<rparr>"

definition ended_without_splice :: sysenv where
  "ended_without_splice = (unreadable_at 0)\<lparr>read_res := ReadData []\<rparr>"

text \<open>Standard input, then a file on descriptor 3, then standard input again.\<close>

definition stdin_file_stdin :: "loop_step list" where
  "stdin_file_stdin =
     [Transfer ended_without_splice 0 0, NextFile,
      Transfer ended_without_splice 3 0, NextFile,
      Transfer ended_without_splice 0 0]"

definition stdin_twice :: "loop_step list" where
  "stdin_twice = [Transfer ended_without_splice 0 0, NextFile, Transfer ended_without_splice 0 0]"

text \<open>Events that are error messages, and events that are writes to the output.\<close>

fun is_error_message :: "event \<Rightarrow> bool" where
  "is_error_message (PvError m) = True"
| "is_error_message e = False"

fun is_write_call :: "event \<Rightarrow> bool" where
  "is_write_call (WriteCall pos n) = True"
| "is_write_call e = False"

text \<open>
  What the read of a call keeps of the window that waits to be written: no write is
  issued, the write position, the amount to write and the line mode stay, and the bytes of
  the transfer buffer below \<open>b\<close> stay.
\<close>

definition window_kept :: "nat \<Rightarrow> pvstate \<Rightarrow> pvstate \<Rightarrow> bool" where
  "window_kept b s s' \<longleftrightarrow>
     filter is_write_call (trace s') = filter is_write_call (trace s)
     \<and> write_position (transfer s') = write_position (transfer s)
     \<and> to_write (transfer s') = to_write (transfer s)
     \<and> linemode (control s') = linemode (control s)
     \<and> null_terminated_lines (control s') = null_terminated_lines (control s)
     \<and> (\<forall>buf. transfer_buffer (transfer s) = Some buf \<longrightarrow>
          (\<exists>buf'. transfer_buffer (transfer s') = Some buf' \<and> (\<forall>i < b. buf' i = buf i)))"

text \<open>
  The number of bytes up to and including the last newline among the \<open>n\<close> bytes of
  \<open>buf\<close> from \<open>pos\<close> on, and \<open>n\<close> when there is no newline among them.
\<close>

definition up_to_last_newline :: "(nat \<Rightarrow> char) \<Rightarrow> nat \<Rightarrow> nat \<Rightarrow> nat" where
  "up_to_last_newline buf pos n =
     (case pv_memrchr buf pos (CHR 0x0A) n of None \<Rightarrow> n | Some k \<Rightarrow> k + 1)"

text \<open>
  Four bytes are waiting in the buffer to be written, and the reader of the output pipe
  has gone: the write fails with EPIPE.
\<close>

definition pending_state :: pvstate where
  "pending_state = example_state\<lparr>transfer := example_transfer\<lparr>read_position := 4\<rparr>\<rparr>"

definition closed_pipe :: sysenv where
  "closed_pipe = (unreadable_at 0)\<lparr>select_in := False, select_out := True, write_res := Fail EPIPE\<rparr>"


text \<open>The input has nothing to read and the output takes what is written.\<close>

definition output_ready :: sysenv where
  "output_ready = closed_pipe\<lparr>write_res := Ok 16\<rparr>"


text \<open>
  Writing to a pipe in byte mode: 1000 bytes written so far, 100 more in this iteration,
  and the pipe reports 64 bytes not yet read.
\<close>

definition piping_state :: pvstate where
  "piping_state = example_state\<lparr>transfer := example_transfer\<lparr>total_written := 1000\<rparr>\<rparr>"

text \<open>A fresh calculation state, and a transfer of 200 bytes against a stated size of 100.\<close>

definition fresh_calc :: pvtransfercalc where
  "fresh_calc =
     \<lparr>transfer_rate = 0, average_rate = 0, prev_elapsed_sec = 0, prev_rate = 0, prev_trans = 0,
      current_avg_rate = 0, rate_min = 0, rate_max = 0, rate_sum = 0, ratesquared_sum = 0,
      measurements_taken = 0, history = None, history_len = 0, history_first = 0,
      history_last = 0, prev_transferred = 0, percentage = 0\<rparr>"

definition past_stated_size :: calc_inputs where
  "past_stated_size =
     \<lparr>elapsed_seconds = 1, amount_transferred = 200, total_size = 100, count_bits = False,
      history_interval = 1, initial_offset = 0\<rparr>"

definition size_unknown :: calc_inputs where
  "size_unknown = past_stated_size\<lparr>total_size := 0\<rparr>"

text \<open>A transfer of a known size of \<open>2 ^ 49 - 1\<close> bytes, all of them transferred.\<close>

definition all_of_a_large_size :: calc_inputs where
  "all_of_a_large_size =
     past_stated_size\<lparr>amount_transferred := 562949953421311, total_size := 562949953421311\<rparr>"

text \<open>
  The sender's calls all succeed; process 4242 acknowledges during the third wait, after a
  stray signal from process 17 during the second.
\<close>

definition idle_remote_state :: remote_state where
  "idle_remote_state = \<lparr>signal_state = \<lparr>rxusr2 = 0, sender_usr2 = 0\<rparr>, remote_trace = []\<rparr>"

definition acknowledging :: remote_env where
  "acknowledging =
     \<lparr>probe_ok = True, open_ok = True, fwrite_ok = True, fclose_ok = True, signal_ok = True,
      remove_ok = True,
      arrivals = (\<lambda>i. if i = 1 then [17] else if i = 2 then [4242] else [])\<rparr>"

definition silent :: remote_env where
  "silent = acknowledging\<lparr>arrivals := (\<lambda>i. [])\<rparr>"

text \<open>
  Process 4242 acknowledges during the third wait, and a signal from process 17 arrives
  after it during the same wait.
\<close>

definition interrupted :: remote_env where
  "interrupted = acknowledging\<lparr>arrivals := (\<lambda>i. if i = 2 then [4242, 17] else [])\<rparr>"

text \<open>
  Arguments of the ETA formatter: half of 100 bytes transferred, at one byte in 2048
  seconds and at ten bytes a second; three million bytes left at ten bytes a second.
\<close>

definition empty_segment :: pvdisplay_segment where
  "empty_segment =
     \<lparr>seg_type = 10, parameter = 0, chosen_size = 0, seg_offset = 0, seg_bytes = 0,
      seg_width = 0\<rparr>"

definition crawling :: pvformatter_args where
  "crawling =
     \<lparr>final_update = False, display_initial_offset = 0, control_size = 100,
      transfer_transferred = 50, calc_current_avg_rate = 1 / 2048, segment = empty_segment,
      buffer = (\<lambda>i. CHR ''#''), args_buffer_size = 4096, offset = 0\<rparr>"

definition steady :: pvformatter_args where
  "steady = crawling\<lparr>calc_current_avg_rate := 10, offset := 5\<rparr>"

definition long_haul :: pvformatter_args where
  "long_haul = steady\<lparr>control_size := 3000050\<rparr>"

text \<open>
  A format of five segments: a static string of width 6, a progress bar, the ETA, a bar
  in plain style, and a bar of chosen size 10. The formatters used with it write as many
  characters as the segment is wide, or eleven characters for a segment of width 0.
\<close>

definition literal_segment :: pvdisplay_segment where
  "literal_segment = empty_segment\<lparr>seg_type := - 1, seg_bytes := 6, seg_width := 6\<rparr>"

definition five_segments :: "pvdisplay_segment list" where
  "five_segments =
     [literal_segment, empty_segment\<lparr>seg_type := 3\<rparr>, empty_segment,
      empty_segment\<lparr>seg_type := 4\<rparr>, empty_segment\<lparr>seg_type := 4, chosen_size := 10\<rparr>]"

definition filling :: "int \<Rightarrow> unit formatter" where
  "filling t args =
     pv_formatter_segmentcontent
       (if seg_width (segment args) = 0 then ''ETA 0:00:00''
        else replicate (seg_width (segment args)) CHR ''='') args"

definition before_layout :: "unit pvformat" where
  "before_layout =
     \<lparr>format = five_segments, formatter_info = crawling, static_portion_width = 0,
      dynamic_segment_count = 0, formatter_calls = []\<rparr>"

section \<open>Properties of the transfer engine\<close>

subsection \<open>What every step of a call keeps\<close>

lemma carried_refl: "carried f s s"
  by (simp add: carried_def)


lemma carried_trans: "carried f s s' \<Longrightarrow> carried f s' s'' \<Longrightarrow> carried f s s''"
  unfolding carried_def using prefix_order.order_trans by auto

lemma carried_emit:
  "e \<noteq> PvError ReadErrorsWarning \<Longrightarrow> \<not> is_skip_trace e \<Longrightarrow> \<not> is_splice_on f e \<Longrightarrow> carried f s (emit e s)"
  by (simp add: carried_def emit_def warn_balance_def)

lemma carried_mark: "carried f s (mark_input_ended s)"
  by (simp add: carried_def mark_input_ended_def warn_balance_def Let_def)

lemma carried_warn_once: "carried f s (warn_once s)"
  by (simp add: carried_def warn_once_def warn_balance_def emit_def)

lemma carried_errno: "carried f s (s\<lparr>errno := e\<rparr>)"
  by (simp add: carried_def warn_balance_def)

lemma carried_seek: "carried f s (snd (seek_past_error env orig amt s))"
  by (simp add: seek_past_error_def carried_refl carried_errno split: sysres.split)

lemma carried_seek_failed: "carried f s (seek_failed s)"
  by (simp add: carried_def seek_failed_def warn_balance_def emit_def)

lemma carried_zero_fill: "carried f s (zero_fill_skipped orig off s)"
  by (simp add: carried_def zero_fill_skipped_def warn_balance_def emit_def Let_def)

lemma carried_finish: "carried f s (finish_skip orig sought s)"
proof (cases sought)
  case None
  have "carried f s (mark_input_ended (seek_failed s))"
    by (rule carried_trans [OF carried_seek_failed carried_mark])
  with None show ?thesis by (simp add: finish_skip_def)
next
  case (Some off)
  then show ?thesis by (simp add: finish_skip_def carried_zero_fill carried_mark)
qed

lemma carried_not_seekable:
  "carried f s (mark_input_ended (emit (PvError NotSeekable) ((warn_once s)\<lparr>errno := e\<rparr>)))"
proof -
  have "carried f s ((warn_once s)\<lparr>errno := e\<rparr>)"
    by (rule carried_trans [OF carried_warn_once carried_errno])
  moreover have "carried f ((warn_once s)\<lparr>errno := e\<rparr>) (emit (PvError NotSeekable) ((warn_once s)\<lparr>errno := e\<rparr>))"
    by (rule carried_emit) simp_all
  ultimately show ?thesis
    by (blast intro: carried_trans carried_mark)
qed

lemma carried_skip: "carried f s (skip_past_error env fd b s)"
proof (cases "lseek_cur_res env")
  case (Fail e)
  then show ?thesis by (simp add: skip_past_error_def carried_not_seekable)
next
  case (Ok orig)
  obtain sought s2 where sk:
    "seek_past_error env (int orig) (amount_to_skip_trimmed (warn_once s) (int orig) b) (warn_once s) = (sought, s2)"
    by (cases "seek_past_error env (int orig) (amount_to_skip_trimmed (warn_once s) (int orig) b) (warn_once s)")
  have "carried f (warn_once s) s2"
    using carried_seek [of f "warn_once s" env "int orig" "amount_to_skip_trimmed (warn_once s) (int orig) b"] sk
    by simp
  then have "carried f s (finish_skip (int orig) sought s2)"
    by (blast intro: carried_trans carried_warn_once carried_finish)
  with Ok sk show ?thesis by (simp add: skip_past_error_def)
qed

lemma carried_same:
  "trace s' = trace s \<Longrightarrow> skip_errors (control s') = skip_errors (control s)
   \<Longrightarrow> last_read_skip_fd (transfer s') = last_read_skip_fd (transfer s)
   \<Longrightarrow> read_error_warning_shown (transfer s') = read_error_warning_shown (transfer s)
   \<Longrightarrow> splice_failed_fd (transfer s') = splice_failed_fd (transfer s)
   \<Longrightarrow> carried f s s'"
  by (simp add: carried_def warn_balance_def)

lemma carried_quiet_emit:
  "e \<noteq> PvError ReadErrorsWarning \<Longrightarrow> \<not> is_skip_trace e \<Longrightarrow> \<not> is_splice_on f e
   \<Longrightarrow> carried f s s' \<Longrightarrow> carried f s (emit e s')"
  by (blast intro: carried_trans carried_emit)

lemma carried_count_read_error: "carried f s (count_read_error s)"
  by (rule carried_same) (simp_all add: count_read_error_def)

lemma carried_read_failed: "carried f s (read_failed env fd b d s)"
proof (cases d)
  case True
  have "carried f s (emit (PvError ReadFailed) (count_read_error s))"
    by (rule carried_quiet_emit) (simp_all add: carried_count_read_error)
  with True show ?thesis
    by (simp add: read_failed_def) (blast intro: carried_trans carried_mark)
next
  case False
  then show ?thesis
    by (simp add: read_failed_def) (blast intro: carried_trans carried_count_read_error carried_skip)
qed

lemma carried_read_succeeded: "carried f s (read_succeeded n s)"
  by (rule carried_same) (simp_all add: read_succeeded_def)

lemma carried_read_outcome: "carried f s (snd (read_outcome env fd b d n s))"
  by (simp add: read_outcome_def carried_mark carried_read_succeeded carried_read_failed carried_emit)

lemma carried_store_read_data: "carried f s (store_read_data d s)"
  by (rule carried_same) (simp_all add: store_read_data_def)

lemma carried_read_repeated: "carried f s (snd (pv__transfer_read_repeated env fd b s))"
proof -
  have e: "carried f s (emit (ReadCall fd b) s)"
    by (rule carried_emit) simp_all
  then have "carried f s ((emit (ReadCall fd b) s)\<lparr>errno := x\<rparr>)" for x
    by (blast intro: carried_trans carried_errno)
  moreover have "carried f s (store_read_data d (emit (ReadCall fd b) s))" for d
    using e by (blast intro: carried_trans carried_store_read_data)
  ultimately show ?thesis
    by (simp add: pv__transfer_read_repeated_def carried_refl split: readres.split)
qed

lemma carried_read_unless_spliced: "carried f s (snd (read_unless_spliced env fd b n s))"
  by (simp add: read_unless_spliced_def carried_refl carried_read_repeated)

lemma carried_set_splice_used: "carried f s (set_splice_used b s)"
  by (rule carried_same) (simp_all add: set_splice_used_def)

lemma carried_splice_moved: "carried f s (splice_moved env n s)"
  by (rule carried_same) (simp_all add: splice_moved_def)

lemma carried_splice_failed:
  "e \<noteq> EINVAL \<Longrightarrow> carried f s (splice_failed fd e s)"
  by (rule carried_same) (simp_all add: splice_failed_def)

lemma carried_splice_failed_same_fd:
  "splice_failed_fd (transfer s) \<noteq> f \<Longrightarrow> carried f s (splice_failed fd e s)"
  by (simp add: carried_def splice_failed_def warn_balance_def)

lemma carried_splice_call:
  "fd \<noteq> f \<Longrightarrow> carried f s (set_splice_used b (emit (SpliceCall fd n) s))"
  by (rule carried_trans [OF carried_emit carried_set_splice_used]) simp_all

lemma carried_splice_call_other:
  "splice_failed_fd (transfer s) \<noteq> f \<Longrightarrow> carried f s (set_splice_used b (emit (SpliceCall fd n) s))"
  by (simp add: carried_def set_splice_used_def emit_def warn_balance_def)

lemma splice_failed_fd_splice_call [simp]:
  "splice_failed_fd (transfer (set_splice_used b (emit e s))) = splice_failed_fd (transfer s)"
  by (simp add: set_splice_used_def emit_def)

lemma carried_splice_step:
  assumes "fd = f \<or> splice_res env \<noteq> Fail EINVAL"
  shows "carried f s (snd (snd (splice_step env fd m b s)))"
proof (cases "splice_wanted fd s")
  case False
  then show ?thesis by (simp add: splice_step_def carried_set_splice_used)
next
  case True
  define n where "n = bytes_to_splice m b s"
  have call: "carried f s (set_splice_used u (emit (SpliceCall fd n) s))" for u
  proof (cases "splice_failed_fd (transfer s) = f")
    case True
    with \<open>splice_wanted fd s\<close> have "fd \<noteq> f" by (auto simp: splice_wanted_def)
    then show ?thesis by (rule carried_splice_call)
  next
    case False
    then show ?thesis by (rule carried_splice_call_other)
  qed
  have failed: "carried f (set_splice_used True (emit (SpliceCall fd n) s))
                  (splice_failed fd e (set_splice_used True (emit (SpliceCall fd n) s)))"
    if "splice_res env = Fail e" for e
  proof (cases "splice_failed_fd (transfer s) = f")
    case same: True
    with True have "fd \<noteq> f" by (auto simp: splice_wanted_def)
    with assms that have "e \<noteq> EINVAL" by auto
    then show ?thesis by (rule carried_splice_failed)
  next
    case False
    then show ?thesis by (intro carried_splice_failed_same_fd) simp
  qed
  show ?thesis
  proof (cases "splice_res env")
    case (Fail e)
    have "carried f s (splice_failed fd e (set_splice_used True (emit (SpliceCall fd n) s)))"
      by (rule carried_trans [OF call failed [OF Fail]])
    with True Fail show ?thesis by (simp add: splice_step_def n_def)
  next
    case (Ok k)
    have "carried f s (splice_moved env k (set_splice_used True (emit (SpliceCall fd n) s)))"
      by (rule carried_trans [OF call carried_splice_moved])
    with True Ok call [of False] show ?thesis by (simp add: splice_step_def n_def)
  qed
qed

lemma carried_transfer_read:
  assumes "fd = f \<or> splice_res env \<noteq> Fail EINVAL"
  shows "carried f s (snd (pv__transfer_read env fd m s))"
proof -
  obtain n1 sf s1 where sp: "splice_step env fd m (bytes_can_read_now s) s = (n1, sf, s1)"
    by (cases "splice_step env fd m (bytes_can_read_now s) s") auto
  obtain n2 s2 where rd: "read_unless_spliced env fd (bytes_can_read_now s) n1 s1 = (n2, s2)"
    by (cases "read_unless_spliced env fd (bytes_can_read_now s) n1 s1") auto
  have a: "carried f s s1"
    using carried_splice_step [OF assms, of s m "bytes_can_read_now s"] sp by simp
  have b: "carried f s1 s2"
    using carried_read_unless_spliced [of f s1 env fd "bytes_can_read_now s" n1] rd by simp
  have c: "carried f s2 (snd (read_outcome env fd (bytes_can_read_now s)
                                (skip_errors (control s) = 0 \<or> sf) n2 s2))"
    by (rule carried_read_outcome)
  from a b c have "carried f s (snd (read_outcome env fd (bytes_can_read_now s)
                                (skip_errors (control s) = 0 \<or> sf) n2 s2))"
    by (blast intro: carried_trans)
  with sp rd show ?thesis by (simp add: pv__transfer_read_def)
qed

lemma carried_arm_timer: "carried f s (arm_timer env s)"
  by (simp add: arm_timer_def carried_refl carried_emit)

lemma carried_clear_timer: "carried f s (clear_timer env s)"
  by (simp add: clear_timer_def carried_refl carried_emit)

lemma carried_write_call: "carried f s (write_call s)"
  by (simp add: write_call_def carried_emit)

lemma carried_timed_write: "carried f s (snd (snd (timed_write env s)))"
proof -
  have w: "carried f s (write_call (arm_timer env s))"
    by (rule carried_trans [OF carried_arm_timer carried_write_call])
  then have "carried f s (clear_timer env (write_call (arm_timer env s)))"
    by (rule carried_trans [OF _ carried_clear_timer])
  moreover have "carried f s (clear_timer env ((write_call (arm_timer env s))\<lparr>errno := e\<rparr>))" for e
    by (rule carried_trans [OF carried_trans [OF w carried_errno] carried_clear_timer])
  ultimately show ?thesis
    by (simp add: timed_write_def split: sysres.split)
qed

lemma carried_sparse_seek_failed: "carried f s (sparse_seek_failed e s)"
  by (rule carried_same) (simp_all add: sparse_seek_failed_def)

lemma carried_write_attempt: "carried f s (snd (snd (write_attempt env buf s)))"
proof -
  have sk: "carried f s (emit (OutputSeek n) s)" for n
    by (rule carried_emit) simp_all
  have "carried f s (snd (snd (timed_write env (sparse_seek_failed e (emit (OutputSeek n) s)))))" for e n
    by (rule carried_trans [OF carried_trans [OF sk carried_sparse_seek_failed] carried_timed_write])
  with sk show ?thesis
    by (simp add: write_attempt_def carried_refl carried_timed_write split: sysres.split)
qed

lemma store_line_position_keeps:
  "last_read_skip_fd (store_line_position t) = last_read_skip_fd t
   \<and> read_error_warning_shown (store_line_position t) = read_error_warning_shown t
   \<and> splice_failed_fd (store_line_position t) = splice_failed_fd t"
  by (simp add: store_line_position_def Let_def split: option.split)

lemma scan_written_keeps:
  "last_read_skip_fd (fst (scan_written sep cs t l)) = last_read_skip_fd t
   \<and> read_error_warning_shown (fst (scan_written sep cs t l)) = read_error_warning_shown t
   \<and> splice_failed_fd (fst (scan_written sep cs t l)) = splice_failed_fd t"
  by (induction cs arbitrary: t l) (simp_all add: store_line_position_keeps Let_def)

lemma carried_allocate_line_positions: "carried f s (allocate_line_positions env s)"
proof -
  have "carried f s ((emit (PvError LinePositionAllocationFailed) s)
                       \<lparr>transfer := (transfer s)\<lparr>line_positions_capacity := MAX_LINE_POSITIONS\<rparr>\<rparr>)"
    by (simp add: carried_def emit_def warn_balance_def)
  moreover have "carried f s (s\<lparr>transfer := (transfer s)
                \<lparr>line_positions_capacity := MAX_LINE_POSITIONS,
                 line_positions := Some (\<lambda>_. 0)\<rparr>\<rparr>)"
    by (rule carried_same) simp_all
  ultimately show ?thesis
    by (simp add: allocate_line_positions_def carried_refl)
qed

lemma carried_count_lines: "carried f s (count_lines buf n s)"
  by (rule carried_same) (simp_all add: count_lines_def split_beta scan_written_keeps)

lemma carried_track_lines: "carried f s (track_lines env buf n s)"
  by (simp add: track_lines_def carried_refl
        carried_trans [OF carried_allocate_line_positions carried_count_lines])

lemma carried_advance_write: "carried f s (advance_write n s)"
  by (rule carried_same) (simp_all add: advance_write_def)

lemma carried_reset_when_drained: "carried f s (reset_when_drained s)"
  by (rule carried_same) (simp_all add: reset_when_drained_def)

lemma carried_write_completed: "carried f s (write_completed env buf n s)"
  unfolding write_completed_def
  by (rule carried_trans [OF carried_trans [OF carried_track_lines carried_advance_write]
             carried_reset_when_drained])

lemma carried_no_transfer_buffer: "carried f s (no_transfer_buffer s)"
  by (simp add: carried_def no_transfer_buffer_def emit_def warn_balance_def)

lemma carried_output_pipe_closed: "carried f s (output_pipe_closed s)"
  by (rule carried_same) (simp_all add: output_pipe_closed_def)

lemma carried_write_failed: "carried f s (write_failed s)"
  by (simp add: carried_def write_failed_def emit_def warn_balance_def)

lemma carried_write_outcome: "carried f s (snd (write_outcome env buf n e s))"
  by (simp add: write_outcome_def carried_write_completed carried_emit
        carried_output_pipe_closed carried_write_failed)

lemma carried_transfer_write: "carried f s (snd (pv__transfer_write env s))"
proof (cases "transfer_buffer (transfer s)")
  case None
  then show ?thesis by (simp add: pv__transfer_write_def carried_no_transfer_buffer)
next
  case (Some buf)
  obtain n e s1 where wa: "write_attempt env buf s = (n, e, s1)"
    by (cases "write_attempt env buf s") auto
  have "carried f s s1"
    using carried_write_attempt [of f s env buf] wa by simp
  then have "carried f s (snd (write_outcome env buf n e s1))"
    by (rule carried_trans [OF _ carried_write_outcome])
  with Some wa show ?thesis by (simp add: pv__transfer_write_def)
qed

lemma carried_truncate: "carried f s (truncate_to_last_newline s)"
  by (rule carried_same) (simp_all add: truncate_to_last_newline_def split: option.split)

lemma carried_maximise: "carried f s (maximise_buffer_fill s)"
  by (rule carried_same) (simp_all add: maximise_buffer_fill_def Let_def)

lemma carried_plan_write: "carried f s (plan_write a s)"
  by (rule carried_same) (simp_all add: plan_write_def)

lemma carried_read_phase:
  "fd = f \<or> splice_res env \<noteq> Fail EINVAL \<Longrightarrow> carried f s (snd (read_phase env fd a r s))"
  by (simp add: read_phase_def carried_refl carried_transfer_read)

lemma carried_write_phase: "carried f s (snd (write_phase env r s))"
  by (simp add: write_phase_def carried_refl carried_transfer_write)

lemma carried_written_zero: "carried f s (s\<lparr>transfer := (transfer s)\<lparr>written := 0\<rparr>\<rparr>)"
  by (rule carried_same) simp_all

lemma carried_after_select:
  assumes "fd = f \<or> splice_res env \<noteq> Fail EINVAL"
  shows "carried f s (snd (after_select env fd a n s))"
proof -
  define s0 where "s0 = s\<lparr>transfer := (transfer s)\<lparr>written := 0\<rparr>\<rparr>"
  obtain rd s3 where rp:
    "read_phase env fd a (n > 0 \<and> check_read_fd fd s \<ge> 0 \<and> select_in env) s0 = (rd, s3)"
    by (cases "read_phase env fd a (n > 0 \<and> check_read_fd fd s \<ge> 0 \<and> select_in env) s0") auto
  obtain wr s5 where wp:
    "write_phase env (n > 0 \<and> check_write_fd s \<ge> 0 \<and> select_out env)
       (truncate_to_last_newline s3) = (wr, s5)"
    by (cases "write_phase env (n > 0 \<and> check_write_fd s \<ge> 0 \<and> select_out env)
                 (truncate_to_last_newline s3)") auto
  have a: "carried f s s0"
    unfolding s0_def by (rule carried_written_zero)
  have "carried f s0 s3"
    using carried_read_phase [OF assms, of s0 a "n > 0 \<and> check_read_fd fd s \<ge> 0 \<and> select_in env"] rp
    by simp
  with a have b: "carried f s s3" by (rule carried_trans)
  have "carried f (truncate_to_last_newline s3) s5"
    using carried_write_phase [of f "truncate_to_last_newline s3" env
            "n > 0 \<and> check_write_fd s \<ge> 0 \<and> select_out env"] wp
    by simp
  with b have c: "carried f s s5"
    by (blast intro: carried_trans carried_truncate)
  then have d: "carried f s (maximise_buffer_fill s5)"
    by (rule carried_trans [OF _ carried_maximise])
  from b c d rp wp show ?thesis
    by (simp add: after_select_def s0_def)
qed

lemma carried_select_failed: "carried f s (snd (select_failed e s))"
  by (simp add: select_failed_def carried_def emit_def warn_balance_def)

lemma carried_transfer_io:
  assumes "fd = f \<or> splice_res env \<noteq> Fail EINVAL"
  shows "carried f s (snd (transfer_io env fd a s))"
proof -
  have "carried f s (snd (select_failed e (plan_write a s)))" for e
    by (rule carried_trans [OF carried_plan_write carried_select_failed])
  moreover have "carried f s (snd (after_select env fd a n (plan_write a s)))" for n
    by (rule carried_trans [OF carried_plan_write carried_after_select [OF assms]])
  ultimately show ?thesis
    by (simp add: transfer_io_def carried_refl split: sysres.split)
qed

lemma carried_direct_io: "carried f s (direct_io_applied s)"
  by (rule carried_same) (simp_all add: direct_io_applied_def)

lemma carried_allocation_failed: "carried f s (allocation_failed s)"
  by (simp add: carried_def allocation_failed_def emit_def warn_balance_def)

lemma carried_allocate_buffer: "carried f s (allocate_buffer s)"
  by (rule carried_same) (simp_all add: allocate_buffer_def)

lemma carried_grow_buffer: "carried f s (grow_buffer env s)"
  by (rule carried_same) (simp_all add: grow_buffer_def)

lemma carried_clear_lineswritten: "carried f s (clear_lineswritten s)"
  by (rule carried_same) (simp_all add: clear_lineswritten_def)

lemma carried_reset_same_fd:
  "fd = last_read_skip_fd (transfer s) \<Longrightarrow> carried f s (reset_error_skipping fd s)"
  by (simp add: reset_error_skipping_def carried_refl)

text \<open>Everything in a call of pv_transfer after the error-skipping variables are reset.\<close>

lemma carried_after_reset:
  assumes "fd = f \<or> splice_res env \<noteq> Fail EINVAL"
  shows "carried f (reset_error_skipping fd (direct_io_applied s)) (snd (pv_transfer env fd a s))"
proof -
  define r where "r = reset_error_skipping fd (direct_io_applied s)"
  have tb: "transfer_buffer (transfer r) = transfer_buffer (transfer s)"
    by (simp add: r_def reset_error_skipping_def direct_io_applied_def)
  have "carried f r (clear_lineswritten (grow_buffer env (allocate_buffer r)))"
    by (rule carried_trans [OF carried_trans [OF carried_allocate_buffer carried_grow_buffer]
               carried_clear_lineswritten])
  then have "carried f r (snd (transfer_io env fd a
                (clear_lineswritten (grow_buffer env (allocate_buffer r)))))"
    by (rule carried_trans [OF _ carried_transfer_io [OF assms]])
  then show ?thesis
    using tb by (simp add: pv_transfer_def r_def carried_allocation_failed)
qed

lemma filter_new_events:
  assumes "prefix (trace s) (trace s')"
  shows "filter P (trace s') = filter P (trace s) @ filter P (new_events s s')"
proof -
  from assms obtain zs where "trace s' = trace s @ zs" by (auto simp: prefix_def)
  then show ?thesis by (simp add: new_events_def)
qed

lemma count_new_events:
  assumes "prefix (trace s) (trace s')"
  shows "count_list (trace s') e = count_list (trace s) e + count_list (new_events s s') e"
proof -
  from assms obtain zs where "trace s' = trace s @ zs" by (auto simp: prefix_def)
  then show ?thesis by (simp add: new_events_def)
qed

lemma splice_kept_refl: "splice_kept f s s"
  by (simp add: splice_kept_def)

lemma splice_kept_trans: "splice_kept f s s' \<Longrightarrow> splice_kept f s' s'' \<Longrightarrow> splice_kept f s s''"
  unfolding splice_kept_def using prefix_order.order_trans by auto

lemma carried_splice_kept: "carried f s s' \<Longrightarrow> splice_kept f s s'"
  by (simp add: carried_def splice_kept_def)

lemma splice_kept_reset: "splice_kept f s (reset_error_skipping fd s)"
  by (simp add: splice_kept_def reset_error_skipping_def)

lemma splice_kept_pv_transfer:
  assumes "fd = f \<or> splice_res env \<noteq> Fail EINVAL"
  shows "splice_kept f s (snd (pv_transfer env fd a s))"
proof -
  have "splice_kept f s (reset_error_skipping fd (direct_io_applied s))"
    by (rule splice_kept_trans [OF carried_splice_kept [OF carried_direct_io] splice_kept_reset])
  then show ?thesis
    by (rule splice_kept_trans [OF _ carried_splice_kept [OF carried_after_reset [OF assms]]])
qed

lemma carried_next_file: "carried f s (next_file s)"
  by (rule carried_same) (simp_all add: next_file_def)

lemma splice_kept_loop_step:
  "keeps_splice_failure f step \<Longrightarrow> splice_kept f s (run_step step s)"
  by (cases step) (simp_all add: splice_kept_pv_transfer carried_splice_kept carried_next_file)

lemma splice_kept_run:
  "list_all (keeps_splice_failure f) steps \<Longrightarrow> splice_kept f s (transfer_run steps s)"
proof (induction steps arbitrary: s)
  case Nil
  show ?case by (simp add: splice_kept_refl)
next
  case (Cons step steps)
  then have "splice_kept f s (run_step step s)"
    by (simp add: splice_kept_loop_step)
  moreover have "splice_kept f (run_step step s) (transfer_run steps (run_step step s))"
    using Cons.prems by (intro Cons.IH) simp
  ultimately show ?case
    by (simp add: splice_kept_trans)
qed

lemma no_splice_while_remembered:
  assumes "splice_failed_fd (transfer s) = f"
      and "list_all (keeps_splice_failure f) steps"
  shows "filter (is_splice_on f) (new_events s (transfer_run steps s)) = []
         \<and> splice_failed_fd (transfer (transfer_run steps s)) = f"
proof -
  have k: "splice_kept f s (transfer_run steps s)"
    using assms(2) by (rule splice_kept_run)
  with assms(1) have "filter (is_splice_on f) (trace (transfer_run steps s))
                      = filter (is_splice_on f) (trace s)"
    and "splice_failed_fd (transfer (transfer_run steps s)) = f"
    and "prefix (trace s) (trace (transfer_run steps s))"
    by (simp_all add: splice_kept_def)
  then show ?thesis
    using filter_new_events [of s "transfer_run steps s" "is_splice_on f"] by simp
qed

lemma carried_pv_transfer_same_input:
  assumes "fd = last_read_skip_fd (transfer s)"
  shows "carried fd s (snd (pv_transfer env fd a s))"
proof -
  have "last_read_skip_fd (transfer (direct_io_applied s)) = fd"
    using assms by (simp add: direct_io_applied_def)
  then have "carried fd (direct_io_applied s) (reset_error_skipping fd (direct_io_applied s))"
    by (intro carried_reset_same_fd) simp
  then have "carried fd s (reset_error_skipping fd (direct_io_applied s))"
    by (rule carried_trans [OF carried_direct_io])
  then show ?thesis
    by (rule carried_trans [OF _ carried_after_reset]) simp
qed

lemma carried_run_same_input:
  "list_all (reads_from fd) steps \<Longrightarrow> fd = last_read_skip_fd (transfer s)
   \<Longrightarrow> carried fd s (transfer_run steps s)"
proof (induction steps arbitrary: s)
  case Nil
  show ?case by (simp add: carried_refl)
next
  case (Cons step steps)
  obtain env a where st: "step = Transfer env fd a"
    using Cons.prems(1) by (cases step) auto
  have c: "carried fd s (run_step step s)"
    using Cons.prems(2) st by (simp add: carried_pv_transfer_same_input)
  then have "fd = last_read_skip_fd (transfer (run_step step s))"
    using Cons.prems(2) by (simp add: carried_def)
  then have "carried fd (run_step step s) (transfer_run steps (run_step step s))"
    using Cons.prems(1) by (intro Cons.IH) simp_all
  with c show ?case
    by (simp add: carried_trans)
qed

lemma carried_run_new_input:
  assumes "list_all (reads_from fd) steps" and "steps \<noteq> []"
  shows "carried fd (reset_error_skipping fd (direct_io_applied s)) (transfer_run steps s)"
proof -
  from assms obtain env a rest where st: "steps = Transfer env fd a # rest"
    by (cases steps; cases "hd steps") auto
  define r where "r = reset_error_skipping fd (direct_io_applied s)"
  have c: "carried fd r (snd (pv_transfer env fd a s))"
    unfolding r_def by (rule carried_after_reset) simp
  have "last_read_skip_fd (transfer r) = fd"
    by (simp add: r_def reset_error_skipping_def)
  with c have "fd = last_read_skip_fd (transfer (snd (pv_transfer env fd a s)))"
    by (simp add: carried_def)
  then have "carried fd (snd (pv_transfer env fd a s))
               (transfer_run rest (snd (pv_transfer env fd a s)))"
    using assms(1) st by (intro carried_run_same_input) simp_all
  with c show ?thesis
    using st by (simp add: r_def carried_trans)
qed

lemma warnings_in_run:
  assumes "list_all (reads_from fd) steps" and "steps \<noteq> []"
      and "fd \<noteq> last_read_skip_fd (transfer s)"
  shows "count_list (new_events s (transfer_run steps s)) (PvError ReadErrorsWarning)
         = (if read_error_warning_shown (transfer (transfer_run steps s)) then 1 else 0)"
    and "2 \<le> skip_errors (control s)
         \<Longrightarrow> filter is_skip_trace (new_events s (transfer_run steps s)) = []"
proof -
  define r where "r = reset_error_skipping fd (direct_io_applied s)"
  have c: "carried fd r (transfer_run steps s)"
    unfolding r_def using assms(1,2) by (rule carried_run_new_input)
  have r: "trace r = trace s" "\<not> read_error_warning_shown (transfer r)"
          "skip_errors (control r) = skip_errors (control s)"
    using assms(3) by (simp_all add: r_def reset_error_skipping_def direct_io_applied_def)
  from c r have p: "prefix (trace s) (trace (transfer_run steps s))"
    by (simp add: carried_def)
  from c r have "warn_balance (transfer_run steps s) = int (count_list (trace s) (PvError ReadErrorsWarning))"
    by (simp add: carried_def warn_balance_def)
  then show "count_list (new_events s (transfer_run steps s)) (PvError ReadErrorsWarning)
         = (if read_error_warning_shown (transfer (transfer_run steps s)) then 1 else 0)"
    using count_new_events [OF p, of "PvError ReadErrorsWarning"]
    by (simp add: warn_balance_def split: if_splits)
  show "filter is_skip_trace (new_events s (transfer_run steps s)) = []"
    if "2 \<le> skip_errors (control s)"
  proof -
    from c r that have "filter is_skip_trace (trace (transfer_run steps s))
                        = filter is_skip_trace (trace s)"
      by (simp add: carried_def)
    then show ?thesis
      using filter_new_events [OF p, of is_skip_trace] by simp
  qed
qed

lemma warnings_in_run_flag_clear:
  assumes "list_all (reads_from fd) steps" and "fd = last_read_skip_fd (transfer s)"
      and "\<not> read_error_warning_shown (transfer s)"
  shows "count_list (new_events s (transfer_run steps s)) (PvError ReadErrorsWarning)
         = (if read_error_warning_shown (transfer (transfer_run steps s)) then 1 else 0)"
    and "2 \<le> skip_errors (control s)
         \<Longrightarrow> filter is_skip_trace (new_events s (transfer_run steps s)) = []"
proof -
  have c: "carried fd s (transfer_run steps s)"
    using assms(1,2) by (rule carried_run_same_input)
  then have p: "prefix (trace s) (trace (transfer_run steps s))"
    by (simp add: carried_def)
  from c assms(3)
  have "warn_balance (transfer_run steps s) = int (count_list (trace s) (PvError ReadErrorsWarning))"
    by (simp add: carried_def warn_balance_def)
  then show "count_list (new_events s (transfer_run steps s)) (PvError ReadErrorsWarning)
         = (if read_error_warning_shown (transfer (transfer_run steps s)) then 1 else 0)"
    using count_new_events [OF p, of "PvError ReadErrorsWarning"]
    by (simp add: warn_balance_def split: if_splits)
  show "filter is_skip_trace (new_events s (transfer_run steps s)) = []"
    if "2 \<le> skip_errors (control s)"
  proof -
    from c that have "filter is_skip_trace (trace (transfer_run steps s))
                        = filter is_skip_trace (trace s)"
      by (simp add: carried_def)
    then show ?thesis
      using filter_new_events [OF p, of is_skip_trace] by simp
  qed
qed

lemma warnings_in_run_of_fresh_input:
  assumes "list_all (reads_from fd) steps" and "steps \<noteq> []"
      and "fd \<noteq> last_read_skip_fd (transfer s) \<or> \<not> read_error_warning_shown (transfer s)"
  shows "count_list (new_events s (transfer_run steps s)) (PvError ReadErrorsWarning)
         = (if read_error_warning_shown (transfer (transfer_run steps s)) then 1 else 0)"
    and "2 \<le> skip_errors (control s)
         \<Longrightarrow> filter is_skip_trace (new_events s (transfer_run steps s)) = []"
proof -
  show "count_list (new_events s (transfer_run steps s)) (PvError ReadErrorsWarning)
         = (if read_error_warning_shown (transfer (transfer_run steps s)) then 1 else 0)"
  proof (cases "fd = last_read_skip_fd (transfer s)")
    case True
    with assms(3) have "\<not> read_error_warning_shown (transfer s)" by simp
    with assms(1) True show ?thesis by (rule warnings_in_run_flag_clear(1))
  next
    case False
    with assms(1,2) show ?thesis by (rule warnings_in_run(1))
  qed
  show "filter is_skip_trace (new_events s (transfer_run steps s)) = []"
    if l: "2 \<le> skip_errors (control s)"
  proof (cases "fd = last_read_skip_fd (transfer s)")
    case True
    with assms(3) have "\<not> read_error_warning_shown (transfer s)" by simp
    with assms(1) True show ?thesis using l by (rule warnings_in_run_flag_clear(2))
  next
    case False
    with assms(1,2) show ?thesis using l by (rule warnings_in_run(2))
  qed
qed

lemma carried_flag_stays:
  assumes "carried f s s'" and "read_error_warning_shown (transfer s)"
  shows "read_error_warning_shown (transfer s')"
proof -
  from assms(1) have p: "prefix (trace s) (trace s')" and w: "warn_balance s' = warn_balance s"
    by (simp_all add: carried_def)
  from count_new_events [OF p, of "PvError ReadErrorsWarning"] w assms(2) show ?thesis
    by (simp add: warn_balance_def split: if_splits)
qed

lemma flag_after_warn_once: "read_error_warning_shown (transfer (warn_once s))"
  by (simp add: warn_once_def emit_def)

lemma flag_after_skip: "read_error_warning_shown (transfer (skip_past_error env fd b s))"
proof (cases "lseek_cur_res env")
  case (Fail e)
  have "read_error_warning_shown (transfer ((warn_once s)\<lparr>errno := e\<rparr>))"
    by (simp add: flag_after_warn_once)
  then show ?thesis
    using Fail by (simp add: skip_past_error_def mark_input_ended_def emit_def Let_def)
next
  case (Ok orig)
  obtain sought s2 where sk:
    "seek_past_error env (int orig) (amount_to_skip_trimmed (warn_once s) (int orig) b) (warn_once s) = (sought, s2)"
    by (cases "seek_past_error env (int orig) (amount_to_skip_trimmed (warn_once s) (int orig) b) (warn_once s)")
  have "carried fd (warn_once s) s2"
    using carried_seek [of fd "warn_once s" env "int orig" "amount_to_skip_trimmed (warn_once s) (int orig) b"] sk
    by simp
  then have "carried fd (warn_once s) (finish_skip (int orig) sought s2)"
    by (rule carried_trans [OF _ carried_finish])
  then have "read_error_warning_shown (transfer (finish_skip (int orig) sought s2))"
    by (rule carried_flag_stays) (rule flag_after_warn_once)
  with Ok sk show ?thesis by (simp add: skip_past_error_def)
qed

lemma flag_after_unrecoverable_read:
  assumes "nread < 0" and "errno s \<noteq> EINTR" and "errno s \<noteq> EAGAIN"
  shows "read_error_warning_shown (transfer (snd (read_outcome env fd b False nread s)))"
  using assms by (simp add: read_outcome_def read_failed_def flag_after_skip)

lemma trace_warn_once:
  "trace (warn_once s) = trace s @ (if read_error_warning_shown (transfer s) then [] else [PvError ReadErrorsWarning])"
  by (simp add: warn_once_def emit_def)

lemma seek_keeps:
  "trace (snd (seek_past_error env orig amt s)) = trace s
   \<and> control (snd (seek_past_error env orig amt s)) = control s"
  by (simp add: seek_past_error_def split: sysres.split)

lemma trace_zero_fill:
  "trace (zero_fill_skipped orig off s)
   = trace s @ (if skip_errors (control s) < 2
                then [PvError (SkippedPastReadError orig off (off - orig))] else [])"
  by (simp add: zero_fill_skipped_def emit_def Let_def)

lemma skip_trace_of_successful_skip:
  assumes "lseek_cur_res env = Ok orig"
      and "fst (seek_past_error env (int orig)
                  (amount_to_skip_trimmed (warn_once s) (int orig) b) (warn_once s)) = Some off"
      and "int orig < off"
  shows "filter is_skip_trace (new_events s (skip_past_error env fd b s))
         = (if skip_errors (control s) < 2
            then [PvError (SkippedPastReadError (int orig) off (off - int orig))] else [])"
proof -
  obtain s2 where sk:
    "seek_past_error env (int orig) (amount_to_skip_trimmed (warn_once s) (int orig) b) (warn_once s) = (Some off, s2)"
    using assms(2)
    by (cases "seek_past_error env (int orig) (amount_to_skip_trimmed (warn_once s) (int orig) b) (warn_once s)") auto
  have s2: "trace s2 = trace (warn_once s)" "control s2 = control (warn_once s)"
    using seek_keeps [of env "int orig" "amount_to_skip_trimmed (warn_once s) (int orig) b" "warn_once s"] sk
    by simp_all
  have c: "control (warn_once s) = control s"
    by (simp add: warn_once_def emit_def)
  have "skip_past_error env fd b s = zero_fill_skipped (int orig) off s2"
    using assms(1,3) sk by (simp add: skip_past_error_def finish_skip_def)
  then show ?thesis
    by (simp add: new_events_def trace_zero_fill s2 c trace_warn_once)
qed

lemma splice_failure_recorded:
  assumes "splice_wanted fd s" and "splice_res env = Fail EINVAL"
  shows "splice_failed_fd (transfer (snd (pv__transfer_read env fd m s))) = fd"
proof -
  obtain n1 sf s1 where sp: "splice_step env fd m (bytes_can_read_now s) s = (n1, sf, s1)"
    by (cases "splice_step env fd m (bytes_can_read_now s) s") auto
  obtain n2 s2 where rd: "read_unless_spliced env fd (bytes_can_read_now s) n1 s1 = (n2, s2)"
    by (cases "read_unless_spliced env fd (bytes_can_read_now s) n1 s1") auto
  have a: "splice_failed_fd (transfer s1) = fd"
    using assms sp by (auto simp add: splice_step_def splice_failed_def)
  have b: "carried fd s1 s2"
    using carried_read_unless_spliced [of fd s1 env fd "bytes_can_read_now s" n1] rd by simp
  have "carried fd s2 (snd (read_outcome env fd (bytes_can_read_now s)
                                (skip_errors (control s) = 0 \<or> sf) n2 s2))"
    by (rule carried_read_outcome)
  with b have "carried fd s1 (snd (read_outcome env fd (bytes_can_read_now s)
                                (skip_errors (control s) = 0 \<or> sf) n2 s2))"
    by (rule carried_trans)
  with a sp rd show ?thesis by (simp add: pv__transfer_read_def carried_def)
qed

lemma ordinary_read_after_failure:
  assumes "splice_failed_fd (transfer s) = fd" and "0 < bytes_can_read_now s"
  shows "take 1 (new_events s (snd (pv__transfer_read env fd m s)))
         = [ReadCall fd (bytes_can_read_now s)]"
proof -
  define b where "b = bytes_can_read_now s"
  define s1 where "s1 = set_splice_used False s"
  obtain n2 s2 where rd: "pv__transfer_read_repeated env fd b s1 = (n2, s2)"
    by (cases "pv__transfer_read_repeated env fd b s1") auto
  have sp: "splice_step env fd m b s = (0, False, s1)"
    using assms(1) by (simp add: splice_step_def splice_wanted_def s1_def)
  have t2: "trace s2 = trace s @ [ReadCall fd b]"
    using rd assms(2)
    by (auto simp add: pv__transfer_read_repeated_def b_def s1_def set_splice_used_def emit_def
                       store_read_data_def split: readres.splits)
  have "carried fd s2 (snd (read_outcome env fd b (skip_errors (control s) = 0 \<or> False) n2 s2))"
    by (rule carried_read_outcome)
  then have "prefix (trace s @ [ReadCall fd b])
               (trace (snd (read_outcome env fd b (skip_errors (control s) = 0 \<or> False) n2 s2)))"
    using t2 by (simp add: carried_def)
  then obtain zs where
    "trace (snd (read_outcome env fd b (skip_errors (control s) = 0 \<or> False) n2 s2))
     = trace s @ [ReadCall fd b] @ zs"
    by (auto simp: prefix_def)
  moreover have "pv__transfer_read env fd m s
                 = read_outcome env fd b (skip_errors (control s) = 0 \<or> False) n2 s2"
    using sp rd by (simp add: pv__transfer_read_def read_unless_spliced_def b_def s1_def set_splice_used_def)
  ultimately show ?thesis
    by (simp add: new_events_def b_def)
qed

subsection \<open>The adaptive skip schedule\<close>

lemma push_bit_one_int: "push_bit k (1::int) = 2 ^ k"
  by (simp add: push_bit_eq_mult)

text \<open>
  C1, as stated, fails at the fifth consecutive error. Five reads in a row fail at offsets
  0 to 4 of one input, with no explicit skip block: the counter stands at 5 when the fifth
  amount is chosen, the amount chosen is 2 bytes, not 1, and the fifth skip goes from
  offset 4 to offset 6.
\<close>

theorem C1_fifth_error_skips_two_bytes:
  "error_skip_block (control (after_errors 5)) = 0
   \<and> read_errors_in_a_row (transfer (after_errors 5)) = 5
   \<and> amount_to_skip_chosen (control (after_errors 5)) (transfer (after_errors 5)) = 2
   \<and> last (trace (after_errors 5)) = PvError (SkippedPastReadError 4 6 2)"
  by code_simp

text \<open>
  C1, amended: with \<open>n\<close> the count of consecutive read errors, already incremented for the
  current error, the amount chosen before rounding is the explicit skip block when that is
  positive, and otherwise 1 byte for \<open>n < 5\<close> (the first four errors), 2 bytes for
  \<open>5 \<le> n \<le> 9\<close>, \<open>1 << (n - 10)\<close> bytes for \<open>10 \<le> n \<le> 19\<close> and 512 bytes from the
  20th error onward.
\<close>

theorem C1_skip_schedule:
  "amount_to_skip_chosen c (t\<lparr>read_errors_in_a_row := n\<rparr>) =
     (if error_skip_block c > 0 then error_skip_block c
      else if n \<le> 4 then 1
      else if n \<le> 9 then 2
      else if n \<le> 19 then 2 ^ nat (n - 10)
      else 512)"
  by (simp add: amount_to_skip_chosen_def push_bit_one_int)

theorem C1_skip_schedule_witness:
  "amount_to_skip_chosen example_control (example_transfer\<lparr>read_errors_in_a_row := 13\<rparr>) = 8
   \<and> amount_to_skip_chosen example_control (example_transfer\<lparr>read_errors_in_a_row := 4\<rparr>) = 1
   \<and> amount_to_skip_chosen (example_control\<lparr>error_skip_block := 4096\<rparr>)
        (example_transfer\<lparr>read_errors_in_a_row := 1\<rparr>) = 4096"
  using C1_skip_schedule [where c = example_control and t = example_transfer and n = 13]
        C1_skip_schedule [where c = example_control and t = example_transfer and n = 4]
        C1_skip_schedule [where c = "example_control\<lparr>error_skip_block := 4096\<rparr>"
                            and t = example_transfer and n = 1]
  by (simp add: example_control_def)

subsection \<open>The read-error warning and the trace of skipped ranges\<close>

text \<open>
  C4, as stated, fails in its second half. At skip-errors level 1 a successful skip from
  offset 0 to offset 1 is reported; at level 2 the same skip succeeds (the read position
  moves on by one byte) and only the warning is shown.
\<close>

theorem C4_skips_reported_at_level_one_only:
  "skip_errors (control example_state) = 1
   \<and> trace (snd (pv__transfer_read (unreadable_at 0) 3 0 example_state))
       = [ReadCall 3 16, PvError ReadErrorsWarning, PvError (SkippedPastReadError 0 1 1)]
   \<and> skip_errors (control level_two_state) = 2
   \<and> read_position (transfer (snd (pv__transfer_read (unreadable_at 0) 3 0 level_two_state))) = 1
   \<and> trace (snd (pv__transfer_read (unreadable_at 0) 3 0 level_two_state))
       = [ReadCall 3 16, PvError ReadErrorsWarning]"
  by code_simp

text \<open>
  An input that is opened on the descriptor number of the input before it. \<open>pv_transfer\<close>
  resets the flag when the descriptor number changes, and no other place of \<open>transfer.c\<close>
  or \<open>state.c\<close> does, so the flag is still set, and the second input fails without a
  warning of its own, although the comment on these fields in \<open>pv-internal.h\<close> says that
  each input file is treated separately.
\<close>

lemma no_warning_for_a_reused_descriptor:
  "count_list
     (new_events new_input_state (transfer_run two_inputs_on_one_descriptor new_input_state))
     (PvError ReadErrorsWarning) = 1"
  by code_simp

text \<open>
  C4, amended. (1) Take an input that starts with the warning flag clear or on a descriptor
  other than the one last read from: the first input of a run is of the first kind, an
  input on another descriptor number of the second. Over the calls of \<open>pv_transfer\<close> on
  it, the warning is shown once if the warning flag is set at the end and not at all
  otherwise, and at level 2 or more no skipped range is reported. (2) A read error that is
  not transient sets the flag when errors are skipped. (3) A skip that succeeds, from
  \<open>orig\<close> to \<open>off\<close>, is reported with one line naming that range exactly when the
  skip-errors level is below 2.
\<close>

theorem C4_warning_once_and_skips_reported_below_level_two:
  "(list_all (reads_from fd) steps \<and> steps \<noteq> []
      \<and> (fd \<noteq> last_read_skip_fd (transfer s) \<or> \<not> read_error_warning_shown (transfer s)) \<longrightarrow>
      count_list (new_events s (transfer_run steps s)) (PvError ReadErrorsWarning)
        = (if read_error_warning_shown (transfer (transfer_run steps s)) then 1 else 0)
      \<and> (2 \<le> skip_errors (control s) \<longrightarrow>
            filter is_skip_trace (new_events s (transfer_run steps s)) = []))
   \<and> (nread < 0 \<and> errno s1 \<noteq> EINTR \<and> errno s1 \<noteq> EAGAIN \<longrightarrow>
        read_error_warning_shown (transfer (snd (read_outcome env1 fd1 b1 False nread s1))))
   \<and> (lseek_cur_res env2 = Ok orig
        \<and> fst (seek_past_error env2 (int orig)
                 (amount_to_skip_trimmed (warn_once s2) (int orig) b2) (warn_once s2)) = Some off
        \<and> int orig < off \<longrightarrow>
        filter is_skip_trace (new_events s2 (skip_past_error env2 fd2 b2 s2))
          = (if skip_errors (control s2) < 2
             then [PvError (SkippedPastReadError (int orig) off (off - int orig))] else []))"
  using warnings_in_run_of_fresh_input [of fd steps s]
        flag_after_unrecoverable_read [of nread s1 env1 fd1 b1]
        skip_trace_of_successful_skip [of env2 orig s2 b2 off fd2]
  by blast

theorem C4_warning_once_witness:
  "count_list (new_events new_input_state (transfer_run two_failed_reads new_input_state))
     (PvError ReadErrorsWarning) = 1
   \<and> count_list
        (new_events first_input_on_stdin (transfer_run two_failed_reads_of_stdin first_input_on_stdin))
        (PvError ReadErrorsWarning) = 1
   \<and> filter is_skip_trace
        (new_events (new_input_state\<lparr>control := example_control\<lparr>skip_errors := 2\<rparr>\<rparr>)
           (transfer_run two_failed_reads
              (new_input_state\<lparr>control := example_control\<lparr>skip_errors := 2\<rparr>\<rparr>))) = []
   \<and> read_error_warning_shown
        (transfer (snd (read_outcome (unreadable_at 0) 3 16 False (-1) (example_state\<lparr>errno := EIO\<rparr>))))
   \<and> filter is_skip_trace (new_events example_state (skip_past_error (unreadable_at 4) 3 16 example_state))
       = [PvError (SkippedPastReadError 4 5 1)]"
proof -
  have run: "list_all (reads_from 3) two_failed_reads \<and> two_failed_reads \<noteq> []
             \<and> 3 \<noteq> last_read_skip_fd (transfer new_input_state)
             \<and> 3 \<noteq> last_read_skip_fd
                      (transfer (new_input_state\<lparr>control := example_control\<lparr>skip_errors := 2\<rparr>\<rparr>))"
    by code_simp
  have stdin: "list_all (reads_from 0) two_failed_reads_of_stdin \<and> two_failed_reads_of_stdin \<noteq> []
             \<and> 0 = last_read_skip_fd (transfer first_input_on_stdin)
             \<and> \<not> read_error_warning_shown (transfer first_input_on_stdin)"
    by code_simp
  have flag: "read_error_warning_shown (transfer (transfer_run two_failed_reads new_input_state))"
    "read_error_warning_shown
       (transfer (transfer_run two_failed_reads_of_stdin first_input_on_stdin))"
    by code_simp+
  have level: "2 \<le> skip_errors (control (new_input_state\<lparr>control := example_control\<lparr>skip_errors := 2\<rparr>\<rparr>))"
    by simp
  have err: "(-1::int) < 0 \<and> errno (example_state\<lparr>errno := EIO\<rparr>) \<noteq> EINTR
             \<and> errno (example_state\<lparr>errno := EIO\<rparr>) \<noteq> EAGAIN"
    by simp
  have skip: "lseek_cur_res (unreadable_at 4) = Ok 4
              \<and> fst (seek_past_error (unreadable_at 4) (int 4)
                       (amount_to_skip_trimmed (warn_once example_state) (int 4) 16)
                       (warn_once example_state)) = Some 5
              \<and> int 4 < 5 \<and> skip_errors (control example_state) < 2"
    by code_simp
  show ?thesis
    using C4_warning_once_and_skips_reported_below_level_two
            [where fd = 3 and steps = two_failed_reads and s = new_input_state
               and nread = "-1" and ?s1.0 = "example_state\<lparr>errno := EIO\<rparr>"
               and ?env1.0 = "unreadable_at 0" and ?fd1.0 = 3 and ?b1.0 = 16
               and ?env2.0 = "unreadable_at 4" and orig = 4 and ?s2.0 = example_state
               and ?b2.0 = 16 and off = 5 and ?fd2.0 = 3]
          C4_warning_once_and_skips_reported_below_level_two
            [where fd = 3 and steps = two_failed_reads
               and s = "new_input_state\<lparr>control := example_control\<lparr>skip_errors := 2\<rparr>\<rparr>"
               and nread = "-1" and ?s1.0 = "example_state\<lparr>errno := EIO\<rparr>"
               and ?env1.0 = "unreadable_at 0" and ?fd1.0 = 3 and ?b1.0 = 16
               and ?env2.0 = "unreadable_at 4" and orig = 4 and ?s2.0 = example_state
               and ?b2.0 = 16 and off = 5 and ?fd2.0 = 3]
          C4_warning_once_and_skips_reported_below_level_two
            [where fd = 0 and steps = two_failed_reads_of_stdin and s = first_input_on_stdin
               and nread = "-1" and ?s1.0 = "example_state\<lparr>errno := EIO\<rparr>"
               and ?env1.0 = "unreadable_at 0" and ?fd1.0 = 3 and ?b1.0 = 16
               and ?env2.0 = "unreadable_at 4" and orig = 4 and ?s2.0 = example_state
               and ?b2.0 = 16 and off = 5 and ?fd2.0 = 3]
          run stdin flag level err skip
    by simp
qed

subsection \<open>Splice after a failure with EINVAL\<close>

text \<open>
  C6, as stated, fails: only the descriptor splice failed on last is remembered. Standard
  input is read, then a file on descriptor 3, then standard input again, and splice fails
  with EINVAL on each. After the first call descriptor 0 is remembered; the failure on
  descriptor 3 replaces it; the last call tries splice on descriptor 0 a second time.
\<close>

theorem C6_splice_tried_again_after_failure_elsewhere:
  "splice_failed_fd (transfer (transfer_run [Transfer ended_without_splice 0 0] splicing_state)) = 0
   \<and> trace (transfer_run stdin_file_stdin splicing_state)
       = [SpliceCall 0 16, ReadCall 0 16, SpliceCall 3 16, ReadCall 3 16,
          SpliceCall 0 16, ReadCall 0 16]"
  by code_simp

text \<open>
  C6, amended. (1) While a descriptor \<open>f\<close> is the one remembered in \<open>splice_failed_fd\<close>,
  and no splice on another descriptor fails with EINVAL, no step of a run tries splice on
  \<open>f\<close>, and \<open>f\<close> stays remembered. (2) A splice that fails with EINVAL makes its
  descriptor the remembered one. (3) A call of \<open>pv__transfer_read\<close> on the remembered
  descriptor goes straight to the ordinary read, which is the first thing it does when
  there is room to read into.
\<close>

theorem C6_no_splice_on_remembered_descriptor:
  "(splice_failed_fd (transfer s) = f \<and> list_all (keeps_splice_failure f) steps \<longrightarrow>
      filter (is_splice_on f) (new_events s (transfer_run steps s)) = []
      \<and> splice_failed_fd (transfer (transfer_run steps s)) = f)
   \<and> (splice_wanted fd1 s1 \<and> splice_res env1 = Fail EINVAL \<longrightarrow>
        splice_failed_fd (transfer (snd (pv__transfer_read env1 fd1 m1 s1))) = fd1)
   \<and> (splice_failed_fd (transfer s2) = fd2 \<and> 0 < bytes_can_read_now s2 \<longrightarrow>
        take 1 (new_events s2 (snd (pv__transfer_read env2 fd2 m2 s2)))
          = [ReadCall fd2 (bytes_can_read_now s2)])"
  using no_splice_while_remembered [of s f steps] splice_failure_recorded [of fd1 s1 env1 m1]
        ordinary_read_after_failure [of s2 fd2 env2 m2]
  by blast

theorem C6_no_splice_witness:
  "filter (is_splice_on 0)
     (new_events (snd (pv_transfer ended_without_splice 0 0 splicing_state))
        (transfer_run stdin_twice (snd (pv_transfer ended_without_splice 0 0 splicing_state)))) = []
   \<and> trace (transfer_run stdin_twice (snd (pv_transfer ended_without_splice 0 0 splicing_state)))
       = [SpliceCall 0 16, ReadCall 0 16, ReadCall 0 16]
   \<and> splice_failed_fd (transfer (snd (pv__transfer_read ended_without_splice 0 0 splicing_state))) = 0
   \<and> take 1 (new_events (splicing_state\<lparr>transfer := example_transfer\<lparr>splice_failed_fd := 0\<rparr>\<rparr>)
               (snd (pv__transfer_read ended_without_splice 0 0
                       (splicing_state\<lparr>transfer := example_transfer\<lparr>splice_failed_fd := 0\<rparr>\<rparr>))))
       = [ReadCall 0 16]"
proof -
  have a: "splice_failed_fd (transfer (snd (pv_transfer ended_without_splice 0 0 splicing_state))) = 0
           \<and> list_all (keeps_splice_failure 0) stdin_twice"
    by code_simp
  have b: "splice_wanted 0 splicing_state \<and> splice_res ended_without_splice = Fail EINVAL"
    by code_simp
  have c: "splice_failed_fd (transfer (splicing_state\<lparr>transfer := example_transfer\<lparr>splice_failed_fd := 0\<rparr>\<rparr>)) = 0
           \<and> 0 < bytes_can_read_now (splicing_state\<lparr>transfer := example_transfer\<lparr>splice_failed_fd := 0\<rparr>\<rparr>)
           \<and> bytes_can_read_now (splicing_state\<lparr>transfer := example_transfer\<lparr>splice_failed_fd := 0\<rparr>\<rparr>) = 16"
    by code_simp
  have d: "trace (transfer_run stdin_twice (snd (pv_transfer ended_without_splice 0 0 splicing_state)))
           = [SpliceCall 0 16, ReadCall 0 16, ReadCall 0 16]"
    by code_simp
  show ?thesis
    using C6_no_splice_on_remembered_descriptor
            [where s = "snd (pv_transfer ended_without_splice 0 0 splicing_state)" and f = 0
               and steps = stdin_twice and ?fd1.0 = 0 and ?s1.0 = splicing_state
               and ?env1.0 = ended_without_splice and ?m1.0 = 0
               and ?s2.0 = "splicing_state\<lparr>transfer := example_transfer\<lparr>splice_failed_fd := 0\<rparr>\<rparr>"
               and ?fd2.0 = 0 and ?env2.0 = ended_without_splice and ?m2.0 = 0]
          a b c d
    by simp
qed

subsection \<open>The write that is issued\<close>


lemma trace_timed_write:
  "trace (snd (snd (timed_write env s)))
   = trace s @ (if timer_set_ok env then [] else [PvError TimerSetFailed])
       @ [WriteCall (write_position (transfer s)) (to_size_t (to_write (transfer s)))]
       @ (if timer_clear_ok env then [] else [PvError TimerClearFailed])"
  by (simp add: timed_write_def clear_timer_def write_call_def arm_timer_def emit_def split: sysres.split)

subsection \<open>A write that fails with EPIPE\<close>

named_theorems pipe_kept

lemma pipe_emit [pipe_kept]: "pipe_closed (emit e s) = pipe_closed s"
  by (simp add: emit_def)

lemma pipe_mark [pipe_kept]: "pipe_closed (mark_input_ended s) = pipe_closed s"
  by (simp add: mark_input_ended_def Let_def)

lemma pipe_set_splice_used [pipe_kept]: "pipe_closed (set_splice_used b s) = pipe_closed s"
  by (simp add: set_splice_used_def)

lemma pipe_splice_failed [pipe_kept]: "pipe_closed (splice_failed fd e s) = pipe_closed s"
  by (simp add: splice_failed_def)

lemma pipe_splice_moved [pipe_kept]: "pipe_closed (splice_moved env n s) = pipe_closed s"
  by (simp add: splice_moved_def)

lemma pipe_splice_step [pipe_kept]:
  "pipe_closed (snd (snd (splice_step env fd m b s))) = pipe_closed s"
  by (simp add: splice_step_def pipe_kept split: sysres.split)

lemma pipe_store_read_data [pipe_kept]: "pipe_closed (store_read_data d s) = pipe_closed s"
  by (simp add: store_read_data_def)

lemma pipe_read_repeated [pipe_kept]:
  "pipe_closed (snd (pv__transfer_read_repeated env fd b s)) = pipe_closed s"
  by (simp add: pv__transfer_read_repeated_def pipe_kept split: readres.split)

lemma pipe_read_unless_spliced [pipe_kept]:
  "pipe_closed (snd (read_unless_spliced env fd b n s)) = pipe_closed s"
  by (simp add: read_unless_spliced_def pipe_kept)

lemma pipe_warn_once [pipe_kept]: "pipe_closed (warn_once s) = pipe_closed s"
  by (simp add: warn_once_def pipe_kept)

lemma pipe_seek [pipe_kept]: "pipe_closed (snd (seek_past_error env orig amt s)) = pipe_closed s"
  by (simp add: seek_past_error_def split: sysres.split)

lemma pipe_seek_failed [pipe_kept]: "pipe_closed (seek_failed s) = pipe_closed s"
  by (simp add: seek_failed_def pipe_kept)

lemma pipe_zero_fill [pipe_kept]: "pipe_closed (zero_fill_skipped orig off s) = pipe_closed s"
  by (simp add: zero_fill_skipped_def Let_def pipe_kept)

lemma pipe_finish [pipe_kept]: "pipe_closed (finish_skip orig sought s) = pipe_closed s"
  by (simp add: finish_skip_def pipe_kept split: option.split)

lemma pipe_skip [pipe_kept]: "pipe_closed (skip_past_error env fd b s) = pipe_closed s"
  by (simp add: skip_past_error_def split_beta pipe_kept split: sysres.split)

lemma pipe_count_read_error [pipe_kept]: "pipe_closed (count_read_error s) = pipe_closed s"
  by (simp add: count_read_error_def)

lemma pipe_read_failed [pipe_kept]: "pipe_closed (read_failed env fd b d s) = pipe_closed s"
  by (simp add: read_failed_def pipe_kept)

lemma pipe_read_succeeded [pipe_kept]: "pipe_closed (read_succeeded n s) = pipe_closed s"
  by (simp add: read_succeeded_def)

lemma pipe_read_outcome [pipe_kept]:
  "pipe_closed (snd (read_outcome env fd b d n s)) = pipe_closed s"
  by (simp add: read_outcome_def pipe_kept)

lemma pipe_transfer_read [pipe_kept]:
  "pipe_closed (snd (pv__transfer_read env fd m s)) = pipe_closed s"
  by (simp add: pv__transfer_read_def split_beta pipe_kept)

lemma pipe_truncate [pipe_kept]: "pipe_closed (truncate_to_last_newline s) = pipe_closed s"
  by (simp add: truncate_to_last_newline_def split: option.split)

lemma pipe_maximise [pipe_kept]: "pipe_closed (maximise_buffer_fill s) = pipe_closed s"
  by (simp add: maximise_buffer_fill_def Let_def)

lemma pipe_plan_write [pipe_kept]: "pipe_closed (plan_write a s) = pipe_closed s"
  by (simp add: plan_write_def)

lemma pipe_read_phase [pipe_kept]:
  "pipe_closed (snd (read_phase env fd a r s)) = pipe_closed s"
  by (simp add: read_phase_def pipe_kept)

lemma pipe_select_failed [pipe_kept]: "pipe_closed (snd (select_failed e s)) = pipe_closed s"
  by (simp add: select_failed_def pipe_kept)

lemma pipe_direct_io [pipe_kept]: "pipe_closed (direct_io_applied s) = pipe_closed s"
  by (simp add: direct_io_applied_def)

lemma pipe_reset [pipe_kept]: "pipe_closed (reset_error_skipping fd s) = pipe_closed s"
  by (simp add: reset_error_skipping_def)

lemma pipe_allocation_failed [pipe_kept]: "pipe_closed (allocation_failed s) = pipe_closed s"
  by (simp add: allocation_failed_def pipe_kept)

lemma pipe_allocate_buffer [pipe_kept]: "pipe_closed (allocate_buffer s) = pipe_closed s"
  by (simp add: allocate_buffer_def)

lemma pipe_grow_buffer [pipe_kept]: "pipe_closed (grow_buffer env s) = pipe_closed s"
  by (simp add: grow_buffer_def)

lemma pipe_clear_lineswritten [pipe_kept]: "pipe_closed (clear_lineswritten s) = pipe_closed s"
  by (simp add: clear_lineswritten_def)

text \<open>The one place that sets the flag is the EPIPE branch, and that branch returns 0.\<close>

lemma pipe_arm_timer [pipe_kept]: "pipe_closed (arm_timer env s) = pipe_closed s"
  by (simp add: arm_timer_def pipe_kept)

lemma pipe_clear_timer [pipe_kept]: "pipe_closed (clear_timer env s) = pipe_closed s"
  by (simp add: clear_timer_def pipe_kept)

lemma pipe_write_call [pipe_kept]: "pipe_closed (write_call s) = pipe_closed s"
  by (simp add: write_call_def pipe_kept)

lemma pipe_timed_write [pipe_kept]: "pipe_closed (snd (snd (timed_write env s))) = pipe_closed s"
  by (simp add: timed_write_def pipe_kept split: sysres.split)

lemma pipe_sparse_seek_failed [pipe_kept]: "pipe_closed (sparse_seek_failed e s) = pipe_closed s"
  by (simp add: sparse_seek_failed_def)

lemma pipe_write_attempt [pipe_kept]:
  "pipe_closed (snd (snd (write_attempt env buf s))) = pipe_closed s"
  by (simp add: write_attempt_def pipe_kept split: sysres.split)

lemma pipe_allocate_line_positions [pipe_kept]:
  "pipe_closed (allocate_line_positions env s) = pipe_closed s"
  by (simp add: allocate_line_positions_def pipe_kept)

lemma pipe_count_lines [pipe_kept]: "pipe_closed (count_lines buf n s) = pipe_closed s"
  by (simp add: count_lines_def split_beta)

lemma pipe_track_lines [pipe_kept]: "pipe_closed (track_lines env buf n s) = pipe_closed s"
  by (simp add: track_lines_def pipe_kept)

lemma pipe_advance_write [pipe_kept]: "pipe_closed (advance_write n s) = pipe_closed s"
  by (simp add: advance_write_def)

lemma pipe_reset_when_drained [pipe_kept]: "pipe_closed (reset_when_drained s) = pipe_closed s"
  by (simp add: reset_when_drained_def)

lemma pipe_write_completed [pipe_kept]:
  "pipe_closed (write_completed env buf n s) = pipe_closed s"
  by (simp add: write_completed_def pipe_kept)

lemma pipe_no_transfer_buffer [pipe_kept]: "pipe_closed (no_transfer_buffer s) = pipe_closed s"
  by (simp add: no_transfer_buffer_def pipe_kept)

lemma pipe_write_failed [pipe_kept]: "pipe_closed (write_failed s) = pipe_closed s"
  by (simp add: write_failed_def pipe_kept)

lemma pipe_write_outcome:
  "pipe_closed (snd (write_outcome env buf n e s)) \<noteq> pipe_closed s
   \<Longrightarrow> fst (write_outcome env buf n e s) = 0"
  by (simp add: write_outcome_def pipe_kept split: if_splits)

lemma pipe_transfer_write:
  assumes "pipe_closed (snd (pv__transfer_write env s)) \<noteq> pipe_closed s"
  shows "fst (pv__transfer_write env s) = 0"
proof (cases "transfer_buffer (transfer s)")
  case None
  with assms show ?thesis
    by (simp add: pv__transfer_write_def pipe_kept)
next
  case (Some buf)
  obtain n e s1 where wa: "write_attempt env buf s = (n, e, s1)"
    by (cases "write_attempt env buf s") auto
  then have "pipe_closed s1 = pipe_closed s"
    using pipe_write_attempt [of env buf s] by simp
  with assms show ?thesis
    using Some wa pipe_write_outcome [of env buf n e s1]
    by (simp add: pv__transfer_write_def)
qed

lemma pipe_write_phase:
  "pipe_closed (snd (write_phase env r s)) \<noteq> pipe_closed s
   \<Longrightarrow> fst (write_phase env r s) = 0"
  using pipe_transfer_write [of env s] by (simp add: write_phase_def split: if_splits)

lemma pipe_after_select:
  assumes "pipe_closed (snd (after_select env fd a n s)) \<noteq> pipe_closed s"
  shows "fst (after_select env fd a n s) = 0"
proof -
  define s0 where "s0 = s\<lparr>transfer := (transfer s)\<lparr>written := 0\<rparr>\<rparr>"
  obtain rd s3 where rp:
    "read_phase env fd a (n > 0 \<and> check_read_fd fd s \<ge> 0 \<and> select_in env) s0 = (rd, s3)"
    by (cases "read_phase env fd a (n > 0 \<and> check_read_fd fd s \<ge> 0 \<and> select_in env) s0") auto
  obtain wr s5 where wp:
    "write_phase env (n > 0 \<and> check_write_fd s \<ge> 0 \<and> select_out env)
       (truncate_to_last_newline s3) = (wr, s5)"
    by (cases "write_phase env (n > 0 \<and> check_write_fd s \<ge> 0 \<and> select_out env)
                 (truncate_to_last_newline s3)") auto
  have p3: "pipe_closed s3 = pipe_closed s"
    using pipe_read_phase [of env fd a "n > 0 \<and> check_read_fd fd s \<ge> 0 \<and> select_in env" s0] rp
    by (simp add: s0_def)
  show ?thesis
  proof (cases "rd = 0 \<or> wr = 0")
    case True
    with rp wp show ?thesis by (auto simp add: after_select_def s0_def)
  next
    case False
    with rp wp assms have "pipe_closed s5 \<noteq> pipe_closed s"
      by (simp add: after_select_def s0_def pipe_kept)
    with p3 have "pipe_closed (snd (write_phase env (n > 0 \<and> check_write_fd s \<ge> 0 \<and> select_out env)
                       (truncate_to_last_newline s3))) \<noteq> pipe_closed (truncate_to_last_newline s3)"
      using wp by (simp add: pipe_kept)
    then have "wr = 0"
      using pipe_write_phase wp by fastforce
    with False show ?thesis by simp
  qed
qed

lemma pipe_transfer_io:
  "pipe_closed (snd (transfer_io env fd a s)) \<noteq> pipe_closed s
   \<Longrightarrow> fst (transfer_io env fd a s) = 0"
  using pipe_after_select [of env fd a _ "plan_write a s"]
  by (simp add: transfer_io_def pipe_kept split: if_splits sysres.splits)

lemma pipe_pv_transfer:
  "pipe_closed (snd (pv_transfer env fd a s)) \<noteq> pipe_closed s
   \<Longrightarrow> fst (pv_transfer env fd a s) = 0"
  using pipe_transfer_io [of env fd a
          "clear_lineswritten (grow_buffer env (allocate_buffer
             (reset_error_skipping fd (direct_io_applied s))))"]
  by (simp add: pv_transfer_def pipe_kept split: if_splits)

lemma EPIPE_outcome:
  assumes "transfer_buffer (transfer s) = Some buf"
      and "fst (snd (write_attempt env buf s)) = Some EPIPE"
  shows "pv__transfer_write env s
         = (0, output_pipe_closed (snd (snd (write_attempt env buf s))))"
proof -
  obtain n e s1 where wa: "write_attempt env buf s = (n, e, s1)"
    by (cases "write_attempt env buf s") auto
  with assms(2) have e: "e = Some EPIPE" by simp
  have "n = -1"
    using wa e
    by (auto simp add: write_attempt_def timed_write_def split: if_splits sysres.splits)
  with assms(1) wa e show ?thesis
    by (simp add: pv__transfer_write_def write_outcome_def)
qed

lemma timed_write_keeps:
  "exit_status (snd (snd (timed_write env s))) = exit_status s
   \<and> written (transfer (snd (snd (timed_write env s)))) = written (transfer s)"
  by (simp add: timed_write_def clear_timer_def write_call_def arm_timer_def emit_def
        split: sysres.split)

lemma write_attempt_keeps:
  "exit_status (snd (snd (write_attempt env buf s))) = exit_status s
   \<and> written (transfer (snd (snd (write_attempt env buf s)))) = written (transfer s)"
proof -
  have "exit_status (snd (snd (timed_write env (sparse_seek_failed e (emit ev s))))) = exit_status s
        \<and> written (transfer (snd (snd (timed_write env (sparse_seek_failed e (emit ev s))))))
            = written (transfer s)" for e ev
    by (simp add: timed_write_keeps) (simp add: sparse_seek_failed_def emit_def)
  then show ?thesis
    by (simp add: write_attempt_def timed_write_keeps split: sysres.split) (simp add: emit_def)
qed

lemma errors_of_timed_write:
  "filter is_error_message (new_events s0 (snd (snd (timed_write env s))))
   = filter is_error_message (new_events s0 s)
       @ (if timer_set_ok env then [] else [PvError TimerSetFailed])
       @ (if timer_clear_ok env then [] else [PvError TimerClearFailed])"
  if "length (trace s0) \<le> length (trace s)"
  using that by (simp add: new_events_def trace_timed_write)

lemma errors_of_failed_write:
  assumes "fst (snd (write_attempt env buf s)) = Some e"
  shows "filter is_error_message (new_events s (snd (snd (write_attempt env buf s))))
         = (if timer_set_ok env then [] else [PvError TimerSetFailed])
           @ (if timer_clear_ok env then [] else [PvError TimerClearFailed])"
proof -
  have a: "filter is_error_message (new_events s (snd (snd (timed_write env s))))
           = (if timer_set_ok env then [] else [PvError TimerSetFailed])
             @ (if timer_clear_ok env then [] else [PvError TimerClearFailed])"
    using errors_of_timed_write [of s s env] by (simp add: new_events_def)
  have b: "filter is_error_message
             (new_events s (snd (snd (timed_write env (sparse_seek_failed x (emit (OutputSeek n) s))))))
           = (if timer_set_ok env then [] else [PvError TimerSetFailed])
             @ (if timer_clear_ok env then [] else [PvError TimerClearFailed])" for x n
    using errors_of_timed_write [of s "sparse_seek_failed x (emit (OutputSeek n) s)" env]
    by (simp add: new_events_def sparse_seek_failed_def emit_def)
  show ?thesis
  proof (cases "discard_input (control s) \<or> \<not> 0 < to_write (transfer s)")
    case True
    then have "fst (snd (write_attempt env buf s)) = None"
      by (auto simp add: write_attempt_def)
    with assms show ?thesis by simp
  next
    case False
    show ?thesis
    proof (cases "sparse_output (control s) \<and> \<not> output_not_seekable (transfer s)
            \<and> all_nulls buf (write_position (transfer s)) (to_size_t (to_write (transfer s)))")
      case True
      with False assms show ?thesis
        by (cases "out_lseek_res env") (simp_all add: write_attempt_def b)
    next
      case no_seek: False
      with False have "write_attempt env buf s = timed_write env s"
        by (auto simp add: write_attempt_def)
      then show ?thesis by (simp add: a)
    qed
  qed
qed

text \<open>
  C5: when the write to the output fails with EPIPE (\<open>write_errno\<close> is EPIPE),
  \<open>pv__transfer_write\<close> returns 0 with \<open>*eof_in\<close>, \<open>*eof_out\<close> and the pipe-closed flag
  set; the exit status and \<open>transfer.written\<close> are as before, and the only messages are
  those of a failing interval timer: no message about the write. A call of \<open>pv_transfer\<close>
  during which the pipe-closed flag changes returns 0.
\<close>

theorem C5_EPIPE_is_orderly:
  "(transfer_buffer (transfer s) = Some buf
    \<and> fst (snd (write_attempt env buf s)) = Some EPIPE \<longrightarrow>
      fst (pv__transfer_write env s) = 0
      \<and> eof_in (snd (pv__transfer_write env s))
      \<and> eof_out (snd (pv__transfer_write env s))
      \<and> pipe_closed (snd (pv__transfer_write env s)) = 1
      \<and> exit_status (snd (pv__transfer_write env s)) = exit_status s
      \<and> written (transfer (snd (pv__transfer_write env s))) = written (transfer s)
      \<and> filter is_error_message (new_events s (snd (pv__transfer_write env s)))
          = (if timer_set_ok env then [] else [PvError TimerSetFailed])
            @ (if timer_clear_ok env then [] else [PvError TimerClearFailed]))
   \<and> (pipe_closed (snd (pv_transfer env1 fd1 a1 s1)) \<noteq> pipe_closed s1 \<longrightarrow>
        fst (pv_transfer env1 fd1 a1 s1) = 0)"
proof -
  have "fst (pv__transfer_write env s) = 0
      \<and> eof_in (snd (pv__transfer_write env s))
      \<and> eof_out (snd (pv__transfer_write env s))
      \<and> pipe_closed (snd (pv__transfer_write env s)) = 1
      \<and> exit_status (snd (pv__transfer_write env s)) = exit_status s
      \<and> written (transfer (snd (pv__transfer_write env s))) = written (transfer s)
      \<and> filter is_error_message (new_events s (snd (pv__transfer_write env s)))
          = (if timer_set_ok env then [] else [PvError TimerSetFailed])
            @ (if timer_clear_ok env then [] else [PvError TimerClearFailed])"
    if b: "transfer_buffer (transfer s) = Some buf"
      and e: "fst (snd (write_attempt env buf s)) = Some EPIPE"
  proof -
    define s1 where "s1 = snd (snd (write_attempt env buf s))"
    have w: "pv__transfer_write env s = (0, output_pipe_closed s1)"
      unfolding s1_def using b e by (rule EPIPE_outcome)
    have k: "exit_status s1 = exit_status s" "written (transfer s1) = written (transfer s)"
      unfolding s1_def by (simp_all add: write_attempt_keeps)
    have m: "filter is_error_message (new_events s s1)
             = (if timer_set_ok env then [] else [PvError TimerSetFailed])
               @ (if timer_clear_ok env then [] else [PvError TimerClearFailed])"
      unfolding s1_def using e by (rule errors_of_failed_write)
    have n: "new_events s (output_pipe_closed s1) = new_events s s1"
      by (simp add: new_events_def output_pipe_closed_def)
    show ?thesis
      by (simp add: w n m k) (simp add: output_pipe_closed_def k)
  qed
  then show ?thesis
    using pipe_pv_transfer [of env1 fd1 a1 s1] by blast
qed

theorem C5_EPIPE_witness:
  "fst (pv__transfer_write closed_pipe
          (pending_state\<lparr>transfer := (transfer pending_state)\<lparr>to_write := 4\<rparr>\<rparr>)) = 0
   \<and> pipe_closed (snd (pv__transfer_write closed_pipe
          (pending_state\<lparr>transfer := (transfer pending_state)\<lparr>to_write := 4\<rparr>\<rparr>))) = 1
   \<and> exit_status (snd (pv__transfer_write closed_pipe
          (pending_state\<lparr>transfer := (transfer pending_state)\<lparr>to_write := 4\<rparr>\<rparr>))) = 0
   \<and> filter is_error_message
        (new_events (pending_state\<lparr>transfer := (transfer pending_state)\<lparr>to_write := 4\<rparr>\<rparr>)
           (snd (pv__transfer_write closed_pipe
                   (pending_state\<lparr>transfer := (transfer pending_state)\<lparr>to_write := 4\<rparr>\<rparr>)))) = []
   \<and> fst (pv_transfer closed_pipe 3 0 pending_state) = 0
   \<and> trace (snd (pv_transfer closed_pipe 3 0 pending_state)) = [WriteCall 0 4]"
proof -
  have a: "transfer_buffer (transfer (pending_state\<lparr>transfer := (transfer pending_state)\<lparr>to_write := 4\<rparr>\<rparr>))
             = Some (\<lambda>_. CHR 0x00)
           \<and> fst (snd (write_attempt closed_pipe (\<lambda>_. CHR 0x00)
                         (pending_state\<lparr>transfer := (transfer pending_state)\<lparr>to_write := 4\<rparr>\<rparr>)))
               = Some EPIPE"
    by (simp add: pending_state_def example_state_def example_transfer_def example_control_def
          closed_pipe_def unreadable_at_def write_attempt_def timed_write_def)
  have b: "pipe_closed (snd (pv_transfer closed_pipe 3 0 pending_state)) \<noteq> pipe_closed pending_state"
    by code_simp
  have c: "exit_status (pending_state\<lparr>transfer := (transfer pending_state)\<lparr>to_write := 4\<rparr>\<rparr>) = 0
           \<and> timer_set_ok closed_pipe \<and> timer_clear_ok closed_pipe"
    by code_simp
  have d: "trace (snd (pv_transfer closed_pipe 3 0 pending_state)) = [WriteCall 0 4]"
    by code_simp
  show ?thesis
    using C5_EPIPE_is_orderly
            [where s = "pending_state\<lparr>transfer := (transfer pending_state)\<lparr>to_write := 4\<rparr>\<rparr>"
               and buf = "\<lambda>_. CHR 0x00" and env = closed_pipe
               and ?env1.0 = closed_pipe and ?fd1.0 = 3 and ?a1.0 = 0 and ?s1.0 = pending_state]
          a b c d
    by simp
qed

subsection \<open>Line mode: the write ends after the last newline\<close>









section \<open>Properties of rounding\<close>

text \<open>The definitions that evaluate a rounding at a given number.\<close>

lemma bit_length_eval:
  "bit_length 0 = 0"
  "bit_length 1 = 1"
  "bit_length (numeral (Num.Bit0 k)) = Suc (bit_length (numeral k))"
  "bit_length (numeral (Num.Bit1 k)) = Suc (bit_length (numeral k))"
  "bit_length (- numeral k) = 0"
  by (subst bit_length.simps, simp)+

lemmas fp_eval = fp_round_def fp_exponent_def round_half_even_def bit_length_eval

text \<open>An integer below \<open>2 ^ k\<close> has at most \<open>k\<close> bits.\<close>

lemma bit_length_le: "n < 2 ^ k \<Longrightarrow> bit_length n \<le> k"
proof (induction k arbitrary: n)
  case 0
  then show ?case by (subst bit_length.simps) simp
next
  case (Suc k)
  show ?case
  proof (cases "n \<le> 0")
    case True
    then show ?thesis by (subst bit_length.simps) simp
  next
    case False
    have "n div 2 < 2 ^ k" using Suc.prems by simp
    then have "bit_length (n div 2) \<le> k" by (rule Suc.IH)
    with False show ?thesis by (subst bit_length.simps) simp
  qed
qed

lemma round_half_even_of_int: "round_half_even (of_int k) = k"
  by (simp add: round_half_even_def)

text \<open>Rounding leaves an integer that fits the mantissa as it is.\<close>

lemma fp_round_of_int:
  assumes "\<bar>n\<bar> < 2 ^ p"
  shows "fp_round p (of_int n) = of_int n"
proof (cases "n = 0")
  case True
  then show ?thesis by (simp add: fp_round_def)
next
  case False
  define b where "b = bit_length \<bar>n\<bar>"
  have bp: "b \<le> p" unfolding b_def using assms by (rule bit_length_le)
  have "1 \<le> \<bar>n\<bar>" using False by simp
  then have one: "1 \<le> \<bar>real_of_int n\<bar>" by linarith
  have fl: "\<lfloor>\<bar>real_of_int n\<bar>\<rfloor> = \<bar>n\<bar>"
    by (metis floor_of_int of_int_abs)
  have e: "fp_exponent (of_int n) + 1 - int p = - int (p - b)"
    using one bp by (simp add: fp_exponent_def fl b_def)
  have q: "(2 :: real) powi (- int (p - b)) = inverse (2 ^ (p - b))"
    by (simp add: power_int_minus)
  have "real_of_int n / inverse (2 ^ (p - b)) = of_int (n * 2 ^ (p - b))"
    by (simp add: field_simps)
  then have r: "round_half_even (real_of_int n / inverse (2 ^ (p - b))) = n * 2 ^ (p - b)"
    by (simp only: round_half_even_of_int)
  have "fp_round p (of_int n)
        = of_int (round_half_even (real_of_int n / inverse (2 ^ (p - b)))) * inverse (2 ^ (p - b))"
    using False by (simp add: fp_round_def e q del: of_int_mult of_int_power)
  also have "\<dots> = of_int (n * 2 ^ (p - b)) * inverse (2 ^ (p - b))"
    by (simp only: r)
  also have "\<dots> = of_int n"
    by simp
  finally show ?thesis .
qed

lemma binary64_of_int: "\<bar>n\<bar> < 2 ^ 53 \<Longrightarrow> binary64 (of_int n) = of_int n"
  unfolding binary64_def by (rule fp_round_of_int)

lemma x87_extended_of_int: "\<bar>n\<bar> < 2 ^ 64 \<Longrightarrow> x87_extended (of_int n) = of_int n"
  unfolding x87_extended_def by (rule fp_round_of_int)

section \<open>Properties of the main loop and of the calculated state\<close>

subsection \<open>The amount transferred to the receiver\<close>

lemma total_after_transfer:
  "total_written (transfer (set_transferred p (look_into_pipe p f (add_to_total w l s))))
   = total_written (transfer s) + (if linemode (control s) then l else w)"
  by (simp add: set_transferred_def look_into_pipe_def add_to_total_def)

lemma unread_after_transfer:
  "written_but_not_consumed (transfer (set_transferred p (look_into_pipe p f (add_to_total w l s))))
   = (if p then
        (if pipe_closed s \<noteq> 0 then 0
         else (case f of Some nbytes \<Rightarrow> if nbytes \<ge> 0 then to_size_t nbytes else 0 | None \<Rightarrow> 0))
      else written_but_not_consumed (transfer s))"
  by (simp add: set_transferred_def look_into_pipe_def add_to_total_def)

lemma transferred_bytes_to_pipe:
  "\<not> linemode (control s)
   \<Longrightarrow> transferred (transfer (set_transferred True (look_into_pipe True f (add_to_total w l s))))
       = total_written (transfer (set_transferred True (look_into_pipe True f (add_to_total w l s))))
         - int (written_but_not_consumed
                  (transfer (set_transferred True (look_into_pipe True f (add_to_total w l s)))))"
  by (simp add: set_transferred_def look_into_pipe_def add_to_total_def)

lemma transferred_pipe_closed:
  "pipe_closed s \<noteq> 0
   \<Longrightarrow> transferred (transfer (set_transferred p (look_into_pipe p f (add_to_total w l s))))
       = total_written (transfer (set_transferred p (look_into_pipe p f (add_to_total w l s))))"
  by (simp add: set_transferred_def look_into_pipe_def add_to_total_def)

text \<open>
  C2: when the loop goes on after \<open>pv_transfer\<close> (it did not return a negative value),
  and the output is a pipe and line mode is off, \<open>transferred\<close> is the cumulative
  \<open>total_written\<close> less \<open>written_but_not_consumed\<close>, which is the byte count FIONREAD
  reported; and whenever the pipe-closed flag is set, \<open>written_but_not_consumed\<close> is 0
  and \<open>transferred\<close> equals \<open>total_written\<close>.
\<close>

theorem C2_transferred_is_written_less_unread:
  "after_pv_transfer output_is_pipe fionread bytes_written lines s = Inr s' \<longrightarrow>
     (output_is_pipe \<and> \<not> linemode (control s) \<longrightarrow>
        total_written (transfer s') = total_written (transfer s) + bytes_written
        \<and> transferred (transfer s')
            = total_written (transfer s') - int (written_but_not_consumed (transfer s'))
        \<and> (pipe_closed s = 0 \<and> fionread = Some nbytes \<and> 0 \<le> nbytes \<and> nbytes < 2 ^ 31 \<longrightarrow>
              transferred (transfer s') = total_written (transfer s') - nbytes))
     \<and> (pipe_closed s \<noteq> 0 \<longrightarrow>
          (output_is_pipe \<longrightarrow> written_but_not_consumed (transfer s') = 0)
          \<and> transferred (transfer s') = total_written (transfer s'))"
proof (intro impI)
  assume a: "after_pv_transfer output_is_pipe fionread bytes_written lines s = Inr s'"
  then have s': "s' = set_transferred output_is_pipe
                        (look_into_pipe output_is_pipe fionread (add_to_total bytes_written lines s))"
    by (simp add: after_pv_transfer_def split: if_splits)
  have n: "to_size_t nbytes = nat nbytes" if "0 \<le> nbytes" "nbytes < 2 ^ 31"
    using that by (simp add: to_size_t_def)
  show "(output_is_pipe \<and> \<not> linemode (control s) \<longrightarrow>
        total_written (transfer s') = total_written (transfer s) + bytes_written
        \<and> transferred (transfer s')
            = total_written (transfer s') - int (written_but_not_consumed (transfer s'))
        \<and> (pipe_closed s = 0 \<and> fionread = Some nbytes \<and> 0 \<le> nbytes \<and> nbytes < 2 ^ 31 \<longrightarrow>
              transferred (transfer s') = total_written (transfer s') - nbytes))
     \<and> (pipe_closed s \<noteq> 0 \<longrightarrow>
          (output_is_pipe \<longrightarrow> written_but_not_consumed (transfer s') = 0)
          \<and> transferred (transfer s') = total_written (transfer s'))"
    unfolding s'
    using transferred_bytes_to_pipe [of s fionread bytes_written lines]
          transferred_pipe_closed [of s output_is_pipe fionread bytes_written lines]
    by (auto simp add: total_after_transfer unread_after_transfer n)
qed

theorem C2_witness:
  "after_pv_transfer True (Some 64) 100 0 piping_state
     = Inr (set_transferred True (look_into_pipe True (Some 64) (add_to_total 100 0 piping_state)))
   \<and> transferred (transfer
        (set_transferred True (look_into_pipe True (Some 64) (add_to_total 100 0 piping_state))))
       = 1036
   \<and> transferred (transfer
        (set_transferred True (look_into_pipe True (Some 64)
           (add_to_total 100 0 (piping_state\<lparr>pipe_closed := 1\<rparr>)))))
       = 1100"
proof -
  have a: "after_pv_transfer True (Some 64) 100 0 piping_state
     = Inr (set_transferred True (look_into_pipe True (Some 64) (add_to_total 100 0 piping_state)))"
    by (simp add: after_pv_transfer_def)
  have b: "after_pv_transfer True (Some 64) 100 0 (piping_state\<lparr>pipe_closed := 1\<rparr>)
     = Inr (set_transferred True (look_into_pipe True (Some 64)
              (add_to_total 100 0 (piping_state\<lparr>pipe_closed := 1\<rparr>))))"
    by (simp add: after_pv_transfer_def)
  have c: "\<not> linemode (control piping_state) \<and> pipe_closed piping_state = 0
           \<and> total_written (transfer piping_state) = 1000
           \<and> \<not> linemode (control (piping_state\<lparr>pipe_closed := 1\<rparr>))
           \<and> total_written (transfer (piping_state\<lparr>pipe_closed := 1\<rparr>)) = 1000"
    by (simp add: piping_state_def example_state_def example_control_def example_transfer_def)
  show ?thesis
    using C2_transferred_is_written_less_unread
            [where output_is_pipe = True and fionread = "Some 64" and bytes_written = 100
               and lines = 0 and s = piping_state and nbytes = 64
               and s' = "set_transferred True (look_into_pipe True (Some 64)
                           (add_to_total 100 0 piping_state))"]
          C2_transferred_is_written_less_unread
            [where output_is_pipe = True and fionread = "Some 64" and bytes_written = 100
               and lines = 0 and s = "piping_state\<lparr>pipe_closed := 1\<rparr>" and nbytes = 64
               and s' = "set_transferred True (look_into_pipe True (Some 64)
                           (add_to_total 100 0 (piping_state\<lparr>pipe_closed := 1\<rparr>)))"]
          a b c
    by simp
qed

subsection \<open>The percentage\<close>

lemma percentage_history:
  "percentage (pv__update_average_rate_history ld calc inp rate) = percentage calc"
  by (simp add: pv__update_average_rate_history_def add_history_entry_def Let_def split: option.split)

lemma percentage_rate_step: "percentage (rate_step ld inp calc) = percentage calc"
  by (simp add: rate_step_def measure_rate_def note_transferred_def Let_def)

lemma percentage_calculated:
  "percentage (pv_calculate_transfer_rate ld calc inp final)
   = next_percentage inp (transfer_rate (pv_calculate_transfer_rate ld calc inp final))
       (percentage calc)"
  by (simp add: pv_calculate_transfer_rate_def Let_def percentage_history percentage_rate_step)

lemma next_percentage_clamped:
  "0 \<le> next_percentage inp rate old \<and> next_percentage inp rate old \<le> 100000"
  by (simp add: next_percentage_def Let_def)

lemma next_percentage_size_known:
  assumes "0 < total_size inp"
  shows "next_percentage inp rate old
         = max 0 (min 100000
             (binary64 (binary64 (binary64 (real_of_int (amount_transferred inp)) * 100)
                          / binary64 (real_of_int (total_size inp)))))"
  using assms by (simp add: next_percentage_def pv_percentage_def Let_def max_def min_def)

lemma next_percentage_size_unknown:
  assumes "total_size inp \<le> 0"
  shows "0 \<le> next_percentage inp rate old" and "next_percentage inp rate old \<le> 199"
    and "0 < rate \<Longrightarrow> 0 \<le> binary64 (old + 2) \<Longrightarrow> binary64 (old + 2) \<le> 199
         \<Longrightarrow> next_percentage inp rate old = binary64 (old + 2)"
    and "0 < rate \<Longrightarrow> 199 < binary64 (old + 2) \<Longrightarrow> next_percentage inp rate old = 0"
    and "rate \<le> 0 \<Longrightarrow> 0 \<le> old \<Longrightarrow> old \<le> 199 \<Longrightarrow> next_percentage inp rate old = old"
  using assms
  by (auto simp add: next_percentage_def Let_def)

lemma next_percentage_step_of_two:
  assumes "total_size inp \<le> 0" and "0 < rate"
      and "old = real_of_int n" and "0 \<le> n" and "n \<le> 197"
  shows "next_percentage inp rate old = old + 2"
proof -
  have "\<bar>n + 2\<bar> < 2 ^ 53" using assms(4,5) by simp
  then have "binary64 (real_of_int (n + 2)) = real_of_int (n + 2)"
    by (rule binary64_of_int)
  then have b: "binary64 (old + 2) = old + 2"
    by (simp add: assms(3))
  have "0 \<le> old + 2" and "old + 2 \<le> 199"
    using assms(3,4,5) by simp_all
  with next_percentage_size_unknown(3) [OF assms(1,2), of old] b show ?thesis
    by simp
qed

text \<open>
  C3, as stated, fails for a known size. With 200 bytes transferred against a stated size
  of 100, the percentage is 200. With all of 562949953421311 bytes transferred, the
  product with 100 is rounded up and the percentage is above 100.
\<close>

theorem C3_past_the_stated_size:
  "total_size past_stated_size = 100 \<and> amount_transferred past_stated_size = 200
   \<and> percentage (pv_calculate_transfer_rate x87_extended fresh_calc past_stated_size False) = 200
   \<and> total_size all_of_a_large_size = amount_transferred all_of_a_large_size
   \<and> percentage (pv_calculate_transfer_rate x87_extended fresh_calc all_of_a_large_size False)
     = 100 + 1 / 70368744177664"
proof -
  have c: "percentage (pv_calculate_transfer_rate x87_extended fresh_calc past_stated_size False)
           = 200"
    by (simp add: percentage_calculated next_percentage_def pv_percentage_def
        past_stated_size_def fresh_calc_def binary64_def fp_eval)
  have d: "percentage (pv_calculate_transfer_rate x87_extended fresh_calc all_of_a_large_size False)
           = 100 + 1 / 70368744177664"
    by (simp add: percentage_calculated next_percentage_def pv_percentage_def
        all_of_a_large_size_def past_stated_size_def fresh_calc_def binary64_def fp_eval)
  have e: "total_size past_stated_size = 100 \<and> amount_transferred past_stated_size = 200
           \<and> total_size all_of_a_large_size = amount_transferred all_of_a_large_size"
    by (simp add: all_of_a_large_size_def past_stated_size_def)
  from c d e show ?thesis by simp
qed

text \<open>
  C3, amended. With a known size the percentage is between 0 and 100000: it is
  \<open>100 * transferred / size\<close> as the arithmetic of \<open>double\<close> gives it, brought into that
  range. With an unknown size it is between 0 and 199: in a call in which the transfer rate
  is positive it goes up by 2, which is exact from a whole number up to 197, and goes back
  to 0 when that would exceed 199; it stays when the rate is not positive.
\<close>

theorem C3_percentage_bounds:
  "(0 < total_size inp \<longrightarrow>
      0 \<le> percentage (pv_calculate_transfer_rate ld calc inp final)
      \<and> percentage (pv_calculate_transfer_rate ld calc inp final) \<le> 100000
      \<and> percentage (pv_calculate_transfer_rate ld calc inp final)
        = max 0 (min 100000
            (binary64 (binary64 (binary64 (real_of_int (amount_transferred inp)) * 100)
                         / binary64 (real_of_int (total_size inp))))))
   \<and> (total_size inp \<le> 0 \<longrightarrow>
        0 \<le> percentage (pv_calculate_transfer_rate ld calc inp final)
        \<and> percentage (pv_calculate_transfer_rate ld calc inp final) \<le> 199
        \<and> (0 < transfer_rate (pv_calculate_transfer_rate ld calc inp final)
            \<and> percentage calc = real_of_int n \<and> 0 \<le> n \<and> n \<le> 197 \<longrightarrow>
              percentage (pv_calculate_transfer_rate ld calc inp final) = percentage calc + 2)
        \<and> (0 < transfer_rate (pv_calculate_transfer_rate ld calc inp final)
            \<and> 0 \<le> binary64 (percentage calc + 2) \<and> binary64 (percentage calc + 2) \<le> 199 \<longrightarrow>
              percentage (pv_calculate_transfer_rate ld calc inp final)
                = binary64 (percentage calc + 2))
        \<and> (0 < transfer_rate (pv_calculate_transfer_rate ld calc inp final)
            \<and> 199 < binary64 (percentage calc + 2) \<longrightarrow>
              percentage (pv_calculate_transfer_rate ld calc inp final) = 0)
        \<and> (transfer_rate (pv_calculate_transfer_rate ld calc inp final) \<le> 0
            \<and> 0 \<le> percentage calc \<and> percentage calc \<le> 199 \<longrightarrow>
              percentage (pv_calculate_transfer_rate ld calc inp final) = percentage calc))"
  unfolding percentage_calculated
  using next_percentage_clamped [of inp "transfer_rate (pv_calculate_transfer_rate ld calc inp final)"
          "percentage calc"]
        next_percentage_size_known [of inp "transfer_rate (pv_calculate_transfer_rate ld calc inp final)"
          "percentage calc"]
        next_percentage_size_unknown [of inp "transfer_rate (pv_calculate_transfer_rate ld calc inp final)"
          "percentage calc"]
        next_percentage_step_of_two [of inp "transfer_rate (pv_calculate_transfer_rate ld calc inp final)"
          "percentage calc" n]
  by blast

theorem C3_percentage_witness:
  "percentage (pv_calculate_transfer_rate x87_extended fresh_calc size_unknown False) = 2
   \<and> percentage (pv_calculate_transfer_rate x87_extended (fresh_calc\<lparr>percentage := 198\<rparr>)
        size_unknown False) = 0
   \<and> percentage (pv_calculate_transfer_rate x87_extended fresh_calc
        (past_stated_size\<lparr>amount_transferred := 50\<rparr>) False) = 50"
proof -
  have r: "0 < transfer_rate (pv_calculate_transfer_rate x87_extended c size_unknown False)"
    if "prev_elapsed_sec c = 0" "prev_trans c = 0" "prev_transferred c = 0" for c
  proof -
    have "transfer_rate (pv_calculate_transfer_rate x87_extended c size_unknown False) = 200"
      using that
      by (simp add: pv_calculate_transfer_rate_def Let_def current_rate_def time_since_last_def
          bytes_since_last_def size_unknown_def past_stated_size_def x87_extended_def
          binary64_def fp_eval)
    then show ?thesis by simp
  qed
  have unknown: "total_size size_unknown \<le> 0"
    by (simp add: size_unknown_def past_stated_size_def)
  have known: "0 < total_size (past_stated_size\<lparr>amount_transferred := 50\<rparr>)"
    by (simp add: past_stated_size_def)
  have r1: "0 < transfer_rate (pv_calculate_transfer_rate x87_extended fresh_calc size_unknown False)"
    by (rule r) (simp_all add: fresh_calc_def)
  have r2: "0 < transfer_rate (pv_calculate_transfer_rate x87_extended
                (fresh_calc\<lparr>percentage := 198\<rparr>) size_unknown False)"
    by (rule r) (simp_all add: fresh_calc_def)
  have whole: "percentage fresh_calc = real_of_int 0" "(0 :: int) \<le> 0" "(0 :: int) \<le> 197"
    by (simp_all add: fresh_calc_def)
  have over: "199 < binary64 (percentage (fresh_calc\<lparr>percentage := 198\<rparr>) + 2)"
    by (simp add: binary64_def fp_eval)
  have half: "max 0 (min 100000
            (binary64 (binary64 (binary64
               (real_of_int (amount_transferred (past_stated_size\<lparr>amount_transferred := 50\<rparr>))) * 100)
                 / binary64 (real_of_int (total_size (past_stated_size\<lparr>amount_transferred := 50\<rparr>))))))
         = (50 :: real)"
    by (simp add: past_stated_size_def binary64_def fp_eval)
  have "percentage (pv_calculate_transfer_rate x87_extended fresh_calc size_unknown False)
        = percentage fresh_calc + 2"
    using C3_percentage_bounds [of size_unknown x87_extended fresh_calc False 0] unknown r1 whole
    by blast
  then have one: "percentage (pv_calculate_transfer_rate x87_extended fresh_calc size_unknown False) = 2"
    by (simp add: fresh_calc_def)
  have two: "percentage (pv_calculate_transfer_rate x87_extended (fresh_calc\<lparr>percentage := 198\<rparr>)
        size_unknown False) = 0"
    using C3_percentage_bounds [of size_unknown x87_extended "fresh_calc\<lparr>percentage := 198\<rparr>" False 0]
      unknown r2 over
    by blast
  have "percentage (pv_calculate_transfer_rate x87_extended fresh_calc
        (past_stated_size\<lparr>amount_transferred := 50\<rparr>) False)
     = max 0 (min 100000
            (binary64 (binary64 (binary64
               (real_of_int (amount_transferred (past_stated_size\<lparr>amount_transferred := 50\<rparr>))) * 100)
                 / binary64 (real_of_int (total_size (past_stated_size\<lparr>amount_transferred := 50\<rparr>))))))"
    using C3_percentage_bounds [of "past_stated_size\<lparr>amount_transferred := 50\<rparr>" x87_extended
            fresh_calc False 0] known
    by blast
  then have three: "percentage (pv_calculate_transfer_rate x87_extended fresh_calc
        (past_stated_size\<lparr>amount_transferred := 50\<rparr>) False) = 50"
    by (simp only: half)
  from one two three show ?thesis by (intro conjI)
qed

section \<open>Properties of the remote control\<close>

subsection \<open>The wait for the acknowledgement\<close>

text \<open>
  Whatever signals arrive during one wait, the handler leaves the flag set and the sender
  of the last one recorded.
\<close>

lemma handler_runs:
  "fold pv_sig_usr2 pids sg
   = (if pids = [] then sg else sg\<lparr>sender_usr2 := last pids, rxusr2 := 1\<rparr>)"
  by (induction pids rule: rev_induct) (simp_all add: pv_sig_usr2_def)

text \<open>
  With the flag clear before a wait, the poll after it reports exactly whether a signal
  arrived, and clears the flag again.
\<close>

lemma poll_after_wait:
  assumes "rxusr2 (signal_state st) = 0"
  shows "pv_sigusr2_received
           (signal_state (deliver (arrivals env i) (remote_log WaitTenMilliseconds st))) sender
         = (arrivals env i \<noteq> [],
            (if arrivals env i = [] then sender else last (arrivals env i)),
            (if arrivals env i = [] then signal_state st
             else (signal_state st)\<lparr>sender_usr2 := last (arrivals env i), rxusr2 := 0\<rparr>))"
  using assms
  by (simp add: pv_sigusr2_received_def deliver_def remote_log_def handler_runs)

lemma wait_for_ack_done:
  "wait_for_ack env remote timeout i True sender st = (True, st)"
  by (subst wait_for_ack.simps) simp

text \<open>
  Entered with \<open>k\<close> waits left, the loop reports an acknowledgement exactly when one of
  the next \<open>k\<close> waits saw it, and has waited at most \<open>k\<close> times.
\<close>

lemma wait_for_ack_polls:
  assumes "rxusr2 (signal_state st) = 0"
  shows "fst (wait_for_ack env remote (10000 * (int k + 1)) i False sender st)
           = (\<exists>j. i \<le> j \<and> j < i + k \<and> acknowledged_at env remote j)
         \<and> (\<exists>m \<le> k. remote_trace (snd (wait_for_ack env remote (10000 * (int k + 1)) i False sender st))
                       = remote_trace st @ replicate m WaitTenMilliseconds)"
  using assms
proof (induction k arbitrary: i sender st)
  case 0
  show ?case
    by (subst wait_for_ack.simps, subst (2) wait_for_ack.simps) simp
next
  case (Suc k)
  define st1 where "st1 = deliver (arrivals env i) (remote_log WaitTenMilliseconds st)"
  define sg where "sg = (if arrivals env i = [] then signal_state st
             else (signal_state st)\<lparr>sender_usr2 := last (arrivals env i), rxusr2 := 0\<rparr>)"
  define sender' where "sender' = (if arrivals env i = [] then sender else last (arrivals env i))"
  define st2 where "st2 = st1\<lparr>signal_state := sg\<rparr>"
  have poll: "pv_sigusr2_received (signal_state st1) sender = (arrivals env i \<noteq> [], sender', sg)"
    unfolding st1_def sg_def sender'_def using Suc.prems by (rule poll_after_wait)
  have tr: "remote_trace st2 = remote_trace st @ [WaitTenMilliseconds]"
    by (simp add: st2_def st1_def deliver_def remote_log_def)
  have clear: "rxusr2 (signal_state st2) = 0"
    using Suc.prems by (simp add: st2_def sg_def)
  have step: "wait_for_ack env remote (10000 * (int (Suc k) + 1)) i False sender st
              = wait_for_ack env remote (10000 * (int k + 1)) (i + 1)
                  (acknowledged_at env remote i) sender' st2"
    apply (subst wait_for_ack.simps)
    using poll
    apply (simp add: st1_def [symmetric] st2_def [symmetric] acknowledged_at_def sender'_def)
    done
  show ?case
  proof (cases "acknowledged_at env remote i")
    case True
    then have "wait_for_ack env remote (10000 * (int (Suc k) + 1)) i False sender st = (True, st2)"
      using step by (simp add: wait_for_ack_done)
    moreover have "\<exists>j. i \<le> j \<and> j < i + Suc k \<and> acknowledged_at env remote j"
      using True by (intro exI [of _ i]) simp
    moreover have "\<exists>m \<le> Suc k. remote_trace st2 = remote_trace st @ replicate m WaitTenMilliseconds"
      using tr by (intro exI [of _ 1]) simp
    ultimately show ?thesis by simp
  next
    case False
    from Suc.IH [OF clear, of "i + 1" sender']
    have r: "fst (wait_for_ack env remote (10000 * (int k + 1)) (i + 1) False sender' st2)
               = (\<exists>j. i + 1 \<le> j \<and> j < i + 1 + k \<and> acknowledged_at env remote j)"
      and "\<exists>m \<le> k. remote_trace (snd (wait_for_ack env remote (10000 * (int k + 1)) (i + 1) False sender' st2))
                       = remote_trace st2 @ replicate m WaitTenMilliseconds"
      by simp_all
    then obtain m where m: "m \<le> k"
      "remote_trace (snd (wait_for_ack env remote (10000 * (int k + 1)) (i + 1) False sender' st2))
         = remote_trace st2 @ replicate m WaitTenMilliseconds"
      by blast
    have eq: "wait_for_ack env remote (10000 * (int (Suc k) + 1)) i False sender st
              = wait_for_ack env remote (10000 * (int k + 1)) (i + 1) False sender' st2"
      using step False by simp
    have a: "(\<exists>j. i + 1 \<le> j \<and> j < i + 1 + k \<and> acknowledged_at env remote j)
             = (\<exists>j. i \<le> j \<and> j < i + Suc k \<and> acknowledged_at env remote j)"
    proof
      assume "\<exists>j. i + 1 \<le> j \<and> j < i + 1 + k \<and> acknowledged_at env remote j"
      then obtain j where "i + 1 \<le> j" "j < i + 1 + k" "acknowledged_at env remote j" by blast
      then show "\<exists>j. i \<le> j \<and> j < i + Suc k \<and> acknowledged_at env remote j"
        by (intro exI [of _ j]) simp
    next
      assume "\<exists>j. i \<le> j \<and> j < i + Suc k \<and> acknowledged_at env remote j"
      then obtain j where j: "i \<le> j" "j < i + Suc k" "acknowledged_at env remote j" by blast
      with False have "j \<noteq> i" by blast
      with j show "\<exists>j. i + 1 \<le> j \<and> j < i + 1 + k \<and> acknowledged_at env remote j"
        by (intro exI [of _ j]) simp
    qed
    have b: "\<exists>m' \<le> Suc k. remote_trace (snd (wait_for_ack env remote (10000 * (int k + 1)) (i + 1) False sender' st2))
                       = remote_trace st @ replicate m' WaitTenMilliseconds"
      using m tr by (intro exI [of _ "Suc m"]) (simp add: replicate_append_same)
    show ?thesis
      unfolding eq using r a b by simp
  qed
qed

lemma signal_and_wait_result:
  assumes "signal_ok env"
  shows "\<exists>m \<le> 109.
           signal_and_wait env remote st
           = (if \<exists>i < 109. acknowledged_at env remote i then 0 else PV_ERROREXIT_REMOTE_OR_PID,
              snd (signal_and_wait env remote st))
         \<and> remote_trace (snd (signal_and_wait env remote st))
           = remote_trace st @ [SignalRemote remote] @ replicate m WaitTenMilliseconds
               @ [RemoveControlFile] @ (if remove_ok env then [] else [RemoteError])
               @ (if \<exists>i < 109. acknowledged_at env remote i then [] else [RemoteError])"
proof -
  obtain got sender sg where p: "pv_sigusr2_received (signal_state st) 0 = (got, sender, sg)"
    by (cases "pv_sigusr2_received (signal_state st) 0") blast
  then have clear: "rxusr2 sg = 0"
    by (auto simp add: pv_sigusr2_received_def split: if_splits)
  define st0 where "st0 = remote_log (SignalRemote remote) (st\<lparr>signal_state := sg\<rparr>)"
  have clear0: "rxusr2 (signal_state st0) = 0"
    using clear by (simp add: st0_def remote_log_def)
  have tr0: "remote_trace st0 = remote_trace st @ [SignalRemote remote]"
    by (simp add: st0_def remote_log_def)
  obtain received st1 where w: "wait_for_ack env remote 1100000 0 False sender st0 = (received, st1)"
    by (cases "wait_for_ack env remote 1100000 0 False sender st0") blast
  from wait_for_ack_polls [OF clear0, where k = 109 and i = 0 and env = env and remote = remote
      and sender = sender]
  have r: "received = (\<exists>j < 109. acknowledged_at env remote j)"
    and "\<exists>m \<le> 109. remote_trace st1 = remote_trace st0 @ replicate m WaitTenMilliseconds"
    using w by simp_all
  then obtain m where m: "m \<le> 109"
      "remote_trace st1 = remote_trace st0 @ replicate m WaitTenMilliseconds"
    by blast
  have s: "signal_and_wait env remote st = finish_remote_set env received st1"
    using assms p w by (simp add: signal_and_wait_def st0_def)
  show ?thesis
    unfolding s using m(1)
    by (intro exI [of _ m])
       (simp add: finish_remote_set_def Let_def remote_log_def m(2) tr0 r)
qed

text \<open>
  C9, as stated, fails. The handler keeps the sender of the latest SIGUSR2 only. When the
  acknowledgement of process 4242 is followed, within the same wait of 10 milliseconds,
  by a signal from another process, the poll after that wait finds the other sender: the
  acknowledgement has arrived in time, and \<open>pv_remote_set\<close> returns the error code.
\<close>

theorem C9_ack_followed_by_another_signal_is_missed:
  "ack_arrived_in_time interrupted 4242
   \<and> fst (pv_remote_set interrupted 4242 idle_remote_state) = PV_ERROREXIT_REMOTE_OR_PID
   \<and> PV_ERROREXIT_REMOTE_OR_PID \<noteq> 0
   \<and> count_list
        (new_remote_events idle_remote_state (snd (pv_remote_set interrupted 4242 idle_remote_state)))
        WaitTenMilliseconds = 109"
proof -
  have "(2 :: nat) < 109 \<and> (4242 :: int) \<in> set (arrivals interrupted 2)"
    by (simp add: interrupted_def acknowledging_def)
  then have a: "ack_arrived_in_time interrupted 4242"
    unfolding ack_arrived_in_time_def by blast
  have b: "fst (pv_remote_set interrupted 4242 idle_remote_state) = PV_ERROREXIT_REMOTE_OR_PID"
    by code_simp
  have c: "PV_ERROREXIT_REMOTE_OR_PID \<noteq> 0"
    by (simp add: PV_ERROREXIT_REMOTE_OR_PID_def)
  have d: "count_list
        (new_remote_events idle_remote_state (snd (pv_remote_set interrupted 4242 idle_remote_state)))
        WaitTenMilliseconds = 109"
    by code_simp
  from a b c d show ?thesis by (intro conjI)
qed

text \<open>
  C9, amended. When the control file has been written and the receiver signalled,
  \<open>pv_remote_set\<close> waits at most 109 times for 10 milliseconds, which is less than 1.1
  seconds; it removes its control file exactly once, whether or not the acknowledgement
  arrives; it returns 0 exactly when, after one of these waits, the latest SIGUSR2 that
  arrived during the wait came from the remote process, and the remote-or-pid error code,
  which is not 0, otherwise.
\<close>

theorem C9_ack_awaited_then_file_removed:
  assumes "probe_ok env" and "open_ok env" and "fwrite_ok env" and "fclose_ok env"
    and "signal_ok env"
  shows "count_list (new_remote_events st (snd (pv_remote_set env remote st))) WaitTenMilliseconds
           \<le> 109
         \<and> count_list (new_remote_events st (snd (pv_remote_set env remote st))) RemoveControlFile
           = 1
         \<and> fst (pv_remote_set env remote st)
           = (if \<exists>i < 109. acknowledged_at env remote i then 0 else PV_ERROREXIT_REMOTE_OR_PID)
         \<and> PV_ERROREXIT_REMOTE_OR_PID \<noteq> 0"
proof -
  define st0 where "st0 = remote_log CloseControlFile (remote_log WriteControlFile
      (remote_log OpenControlFile (remote_log (ProbeRemote remote) st)))"
  have tr0: "remote_trace st0 = remote_trace st
      @ [ProbeRemote remote, OpenControlFile, WriteControlFile, CloseControlFile]"
    by (simp add: st0_def remote_log_def)
  have s: "pv_remote_set env remote st = signal_and_wait env remote st0"
    using assms by (simp add: pv_remote_set_def st0_def)
  from signal_and_wait_result [OF assms(5), of remote st0]
  obtain m where m: "m \<le> 109"
    and eq: "signal_and_wait env remote st0
           = (if \<exists>i < 109. acknowledged_at env remote i then 0 else PV_ERROREXIT_REMOTE_OR_PID,
              snd (signal_and_wait env remote st0))"
    and tr: "remote_trace (snd (signal_and_wait env remote st0))
           = remote_trace st0 @ [SignalRemote remote] @ replicate m WaitTenMilliseconds
               @ [RemoveControlFile] @ (if remove_ok env then [] else [RemoteError])
               @ (if \<exists>i < 109. acknowledged_at env remote i then [] else [RemoteError])"
    by blast
  have ret: "fst (signal_and_wait env remote st0)
        = (if \<exists>i < 109. acknowledged_at env remote i then 0 else PV_ERROREXIT_REMOTE_OR_PID)"
    by (subst eq) (rule fst_conv)
  have c: "count_list (replicate m WaitTenMilliseconds) WaitTenMilliseconds = m"
    "count_list (replicate m WaitTenMilliseconds) RemoveControlFile = 0"
    by (induction m) simp_all
  have ev: "new_remote_events st (snd (signal_and_wait env remote st0))
           = [ProbeRemote remote, OpenControlFile, WriteControlFile, CloseControlFile,
              SignalRemote remote] @ replicate m WaitTenMilliseconds
               @ [RemoveControlFile] @ (if remove_ok env then [] else [RemoteError])
               @ (if \<exists>i < 109. acknowledged_at env remote i then [] else [RemoteError])"
    by (simp add: new_remote_events_def tr tr0)
  have w: "count_list (new_remote_events st (snd (signal_and_wait env remote st0)))
             WaitTenMilliseconds = m"
    unfolding ev using c by simp
  have r: "count_list (new_remote_events st (snd (signal_and_wait env remote st0)))
             RemoveControlFile = 1"
    unfolding ev using c by simp
  have n: "PV_ERROREXIT_REMOTE_OR_PID \<noteq> 0"
    by (simp add: PV_ERROREXIT_REMOTE_OR_PID_def)
  show ?thesis
    unfolding s w r using m ret n by blast
qed

text \<open>
  A receiver that acknowledges during the third wait, after a signal from a stranger during
  the second, and a receiver that never answers.
\<close>

theorem C9_ack_witness:
  "fst (pv_remote_set acknowledging 4242 idle_remote_state) = 0
   \<and> new_remote_events idle_remote_state (snd (pv_remote_set acknowledging 4242 idle_remote_state))
     = [ProbeRemote 4242, OpenControlFile, WriteControlFile, CloseControlFile, SignalRemote 4242,
        WaitTenMilliseconds, WaitTenMilliseconds, WaitTenMilliseconds, RemoveControlFile]
   \<and> fst (pv_remote_set silent 4242 idle_remote_state) = 8
   \<and> count_list (new_remote_events idle_remote_state (snd (pv_remote_set silent 4242 idle_remote_state)))
        WaitTenMilliseconds = 109
   \<and> count_list (new_remote_events idle_remote_state (snd (pv_remote_set silent 4242 idle_remote_state)))
        RemoveControlFile = 1"
proof -
  have a: "probe_ok acknowledging" "open_ok acknowledging" "fwrite_ok acknowledging"
    "fclose_ok acknowledging" "signal_ok acknowledging"
    "probe_ok silent" "open_ok silent" "fwrite_ok silent" "fclose_ok silent" "signal_ok silent"
    by (simp_all add: acknowledging_def silent_def)
  have b: "\<exists>i < 109. acknowledged_at acknowledging 4242 i"
    by (intro exI [of _ 2]) (simp add: acknowledged_at_def acknowledging_def)
  have c: "\<not> (\<exists>i < 109. acknowledged_at silent 4242 i)"
    by (simp add: acknowledged_at_def silent_def)
  have d: "new_remote_events idle_remote_state (snd (pv_remote_set acknowledging 4242 idle_remote_state))
     = [ProbeRemote 4242, OpenControlFile, WriteControlFile, CloseControlFile, SignalRemote 4242,
        WaitTenMilliseconds, WaitTenMilliseconds, WaitTenMilliseconds, RemoveControlFile]"
    by code_simp
  have e: "count_list (new_remote_events idle_remote_state
        (snd (pv_remote_set silent 4242 idle_remote_state))) WaitTenMilliseconds = 109"
    by code_simp
  show ?thesis
    using C9_ack_awaited_then_file_removed [OF a(1-5), of idle_remote_state 4242]
      C9_ack_awaited_then_file_removed [OF a(6-10), of idle_remote_state 4242] b c d e
    by (simp add: PV_ERROREXIT_REMOTE_OR_PID_def)
qed

section \<open>Properties of the ETA formatter\<close>

subsection \<open>Division, and the length of what is printed\<close>

text \<open>On a dividend that is not negative, the division of C is \<open>div\<close> and \<open>mod\<close>.\<close>

lemma c_div_nonneg:
  assumes "0 \<le> a" and "0 < b"
  shows "c_div a b = a div b"
proof (cases "a = 0")
  case True
  then show ?thesis by (simp add: c_div_def)
next
  case False
  with assms have "0 < a" by simp
  with assms show ?thesis by (simp add: c_div_def)
qed

lemma c_mod_nonneg:
  assumes "0 \<le> a" and "0 < b"
  shows "c_mod a b = a mod b"
  using assms by (simp add: c_mod_def c_div_nonneg minus_mult_div_eq_mod)

lemma decimal_length:
  "0 < k \<Longrightarrow> n < 10 ^ k \<Longrightarrow> length (decimal n) \<le> k"
proof (induction k arbitrary: n)
  case 0
  then show ?case by simp
next
  case (Suc k)
  show ?case
  proof (cases "n < 10")
    case True
    then show ?thesis by (subst decimal.simps) simp
  next
    case False
    then have k: "0 < k" using Suc.prems by (cases k) auto
    have "n div 10 < 10 ^ k" using Suc.prems by (simp add: less_mult_imp_div_less mult.commute)
    from Suc.IH [OF k this] False show ?thesis by (subst decimal.simps) simp
  qed
qed

lemma decimal_not_empty: "0 < length (decimal n)"
  by (subst decimal.simps) simp

lemma show_ld_length:
  assumes "0 \<le> n" and "n \<le> 360000000"
  shows "length (show_ld n) \<le> 9"
proof -
  have "nat n < 10 ^ 9" using assms by simp
  from decimal_length [OF _ this] assms show ?thesis by (simp add: show_ld_def)
qed

lemma show_02ld_length:
  assumes "0 \<le> n" and "n \<le> 360000000"
  shows "length (show_02ld n) \<le> 9"
proof -
  have "nat n < 10 ^ 9" using assms by simp
  from decimal_length [OF _ this] assms show ?thesis by (simp add: show_02ld_def)
qed

lemma show_02ld_two:
  assumes "0 \<le> n" and "n < 100"
  shows "length (show_02ld n) = 2"
proof -
  have "nat n < 10 ^ 2" using assms by simp
  from decimal_length [OF _ this] decimal_not_empty [of "nat n"] assms
  show ?thesis by (simp add: show_02ld_def)
qed

subsection \<open>The number of seconds and the content\<close>

text \<open>
  Dropping the fraction and then bounding gives the same number as rounding down and
  bounding: the two differ below 0 only, where the bound is 0.
\<close>

lemma long_of_real_bounded:
  assumes "long_of_real x = Some t"
  shows "pv_bound_long t 0 360000000 = max 0 (min 360000000 \<lfloor>x\<rfloor>)"
proof (cases "x < 0")
  case True
  then have "\<lceil>x\<rceil> \<le> 0" by (simp add: ceiling_le_zero)
  moreover have "t = \<lceil>x\<rceil>" using assms True by (simp add: long_of_real_def Let_def split: if_splits)
  ultimately have "t \<le> 0" by simp
  moreover have "\<lfloor>x\<rfloor> < 0" using True by (simp add: floor_less_zero)
  ultimately show ?thesis by (simp add: pv_bound_long_def max_def min_def)
next
  case False
  then have "t = \<lfloor>x\<rfloor>" using assms by (simp add: long_of_real_def Let_def split: if_splits)
  then show ?thesis by (simp add: pv_bound_long_def)
qed

lemma eta_seconds_value:
  assumes "eta_seconds ld args = Some eta"
  shows "eta = (if transfer_transferred args - display_initial_offset args < 1
                   \<or> calc_current_avg_rate args < binary64 (1 / 1000) then 0
                else max 0 (min 360000000
                       \<lfloor>ld (ld (real_of_int (control_size args - transfer_transferred args))
                             / calc_current_avg_rate args)\<rfloor>))"
proof -
  from assms obtain so_far total_amount r where
    d: "off_t_diff (transfer_transferred args) (display_initial_offset args) = Some so_far"
       "off_t_diff (control_size args) (display_initial_offset args) = Some total_amount"
    and r: "pv_seconds_remaining ld so_far total_amount (calc_current_avg_rate args) = Some r"
    and e: "eta = pv_bound_long r 0 360000000"
    by (auto simp add: eta_seconds_def split: option.splits)
  from d have s: "so_far = transfer_transferred args - display_initial_offset args"
    and t: "total_amount = control_size args - display_initial_offset args"
    by (simp_all add: off_t_diff_def split: if_splits)
  show ?thesis
  proof (cases "so_far < 1 \<or> calc_current_avg_rate args < binary64 (1 / 1000)")
    case True
    then have "r = 0" using r by (simp add: pv_seconds_remaining_def)
    then show ?thesis using True e s by (simp add: pv_bound_long_def)
  next
    case False
    then obtain amount_left where l: "off_t_diff total_amount so_far = Some amount_left"
      and c: "long_of_real (ld (ld (real_of_int amount_left) / calc_current_avg_rate args)) = Some r"
      using r by (auto simp add: pv_seconds_remaining_def split: option.splits)
    from l have "amount_left = control_size args - transfer_transferred args"
      using s t by (simp add: off_t_diff_def split: if_splits)
    with long_of_real_bounded [OF c] e False s show ?thesis
      by simp
  qed
qed

lemma eta_seconds_range:
  assumes "eta_seconds ld args = Some eta"
  shows "0 \<le> eta \<and> eta \<le> 360000000"
  using assms
  by (auto simp add: eta_seconds_def pv_bound_long_def split: option.splits)

lemma eta_content_whole:
  assumes "0 \<le> eta" and "eta \<le> 360000000"
  shows "eta_content label eta = eta_text_as_specified label eta"
    and "length (eta_content label eta) \<le> 43"
proof -
  have d: "c_div eta 86400 = eta div 86400" "c_div eta 3600 = eta div 3600"
    "c_div eta 60 = eta div 60" "c_mod eta 60 = eta mod 60"
    using assms(1) by (simp_all add: c_div_nonneg c_mod_nonneg)
  have m: "c_mod (eta div 3600) 24 = eta div 3600 mod 24" "c_mod (eta div 60) 60 = eta div 60 mod 60"
    using assms(1) by (simp_all add: c_mod_nonneg pos_imp_zdiv_nonneg_iff)
  have two: "length (show_02ld (eta div 3600 mod 24)) = 2"
    "length (show_02ld (eta div 60 mod 60)) = 2" "length (show_02ld (eta mod 60)) = 2"
    by (simp_all add: show_02ld_two)
  have "eta div 86400 \<le> eta div 1" "eta div 3600 \<le> eta div 1"
    using assms(1) by (intro zdiv_mono2; simp)+
  then have "0 \<le> eta div 86400" "eta div 86400 \<le> 360000000" "0 \<le> eta div 3600"
    "eta div 3600 \<le> 360000000"
    using assms by (simp_all add: pos_imp_zdiv_nonneg_iff)
  then have l: "length (show_ld (eta div 86400)) \<le> 9" "length (show_ld (eta div 3600)) \<le> 9"
    by (simp_all add: show_ld_length)
  define whole where "whole = take 16 label @ '' ''
           @ (if 86400 < eta then show_ld (eta div 86400) @ '':'' @ show_02ld (eta div 3600 mod 24)
              else show_ld (eta div 3600))
           @ '':'' @ show_02ld (eta div 60 mod 60) @ '':'' @ show_02ld (eta mod 60)"
  have "length whole = min (length label) 16
      + (if 86400 < eta then length (show_ld (eta div 86400)) + 3
         else length (show_ld (eta div 3600))) + 7"
    unfolding whole_def by (simp only: length_append length_take two if_distrib [of length]
        list.size) simp
  then have w: "length whole \<le> 43"
    using l by (cases "86400 < eta") simp_all
  have "eta_content label eta = take 127 whole"
  proof (cases "86400 < eta")
    case True
    then show ?thesis
      unfolding eta_content_def whole_def d m by (simp only: if_True append_assoc)
  next
    case False
    then show ?thesis
      unfolding eta_content_def whole_def d m by (simp only: if_False append_assoc)
  qed
  also have "\<dots> = whole" using w by (simp only: take_all)
  finally have e: "eta_content label eta = whole" .
  show "eta_content label eta = eta_text_as_specified label eta"
    using e by (simp only: whole_def eta_text_as_specified_def)
  show "length (eta_content label eta) \<le> 43"
    using e w by simp
qed

lemma segmentcontent_fits:
  assumes "offset args + length content < args_buffer_size args" and "length content < 65536"
  shows "fst (pv_formatter_segmentcontent content args) = length content"
    and "segment_text (snd (pv_formatter_segmentcontent content args)) = content"
proof -
  show "fst (pv_formatter_segmentcontent content args) = length content"
    using assms by (simp add: pv_formatter_segmentcontent_def Let_def)
  show "segment_text (snd (pv_formatter_segmentcontent content args)) = content"
    using assms
    by (auto simp add: pv_formatter_segmentcontent_def Let_def segment_text_def store_content_def
        intro!: nth_equalityI)
qed

lemma segmentcontent_no_room:
  assumes "args_buffer_size args \<le> offset args + length content" and "length content < 65536"
  shows "fst (pv_formatter_segmentcontent content args) = 0"
    and "buffer (snd (pv_formatter_segmentcontent content args)) = buffer args"
    and "seg_bytes (segment (snd (pv_formatter_segmentcontent content args))) = 0"
  using assms by (simp_all add: pv_formatter_segmentcontent_def Let_def)

lemma decimal_one_digit: "n < 10 \<Longrightarrow> decimal n = [''0123456789'' ! n]"
  by (subst decimal.simps) simp

lemma decimal_two_digits:
  "10 \<le> n \<Longrightarrow> n < 100 \<Longrightarrow>
   decimal n = [''0123456789'' ! (n div 10), ''0123456789'' ! (n mod 10)]"
  by (subst decimal.simps) (simp add: decimal_one_digit)

subsection \<open>The estimate of a transfer that crawls\<close>

text \<open>
  C8, as stated, fails. With 50 of 100 bytes transferred at one byte in 2048 seconds, the
  remaining amount divided by the rate is 102400 seconds, inside the range of the clamp and
  more than a day. \<open>pv_seconds_remaining\<close> returns 0 for every rate below 0.001, and the
  formatter shows \<open>ETA 0:00:00\<close>.
\<close>

theorem C8_crawling_transfer_shows_no_time_left:
  "eta_as_specified (control_size crawling) (transfer_transferred crawling)
     (calc_current_avg_rate crawling) = 102400
   \<and> eta_seconds x87_extended crawling = Some 0
   \<and> map_option (\<lambda>r. segment_text (snd r)) (pv_formatter_eta x87_extended ''ETA'' crawling)
     = Some ''ETA 0:00:00''"
proof -
  have a: "eta_as_specified (control_size crawling) (transfer_transferred crawling)
     (calc_current_avg_rate crawling) = 102400"
    by (simp add: crawling_def eta_as_specified_def)
  have b: "eta_seconds x87_extended crawling = Some 0"
    by (simp add: crawling_def eta_seconds_def off_t_diff_def pv_seconds_remaining_def
        pv_bound_long_def binary64_def fp_eval)
  have c: "eta_content ''ETA'' 0 = ''ETA 0:00:00''"
    by (simp add: eta_content_def c_div_def c_mod_def show_ld_def show_02ld_def
        decimal_one_digit)
  have "offset crawling + length ''ETA 0:00:00'' < args_buffer_size crawling"
    by (simp add: crawling_def)
  from segmentcontent_fits(2) [OF this]
  have d: "segment_text (snd (pv_formatter_segmentcontent ''ETA 0:00:00'' crawling))
           = ''ETA 0:00:00''"
    by simp
  have e: "control_size crawling = 100" "args_buffer_size crawling = 4096"
    "final_update crawling = False"
    by (simp_all add: crawling_def)
  have "pv_formatter_eta x87_extended ''ETA'' crawling
        = Some (pv_formatter_segmentcontent ''ETA 0:00:00'' crawling)"
    by (simp add: pv_formatter_eta_def b c e)
  with a b d show ?thesis by simp
qed

text \<open>
  C8, amended. For every call of the ETA formatter with a known size, a buffer that is not
  empty, and differences and a quotient inside the range of \<open>long\<close>, whatever the rounding
  to \<open>long double\<close> is: the estimate lies between 0 and 360000000 seconds; it is 0 when
  nothing has been transferred beyond the initial offset or the rate is below the \<open>double\<close>
  constant 0.001, and otherwise the remaining amount divided by the rate in \<open>long double\<close>
  arithmetic, cut to whole seconds and clamped to that range; the content is the label,
  hours, minutes and seconds, with a day count in front exactly when the estimate exceeds
  86400; on the final update it is as many spaces instead. The content is stored at the
  offset and its length returned if it ends before the end of the buffer; otherwise 0 is
  returned and the buffer is left as it was.
\<close>

theorem C8_eta_value_and_text:
  assumes "1 \<le> control_size args" and "0 < args_buffer_size args"
    and "eta_seconds ld args = Some eta"
  shows "0 \<le> eta \<and> eta \<le> 360000000
    \<and> eta = (if transfer_transferred args - display_initial_offset args < 1
                 \<or> calc_current_avg_rate args < binary64 (1 / 1000) then 0
              else max 0 (min 360000000
                     \<lfloor>ld (ld (real_of_int (control_size args - transfer_transferred args))
                           / calc_current_avg_rate args)\<rfloor>))
    \<and> pv_formatter_eta ld label args
        = Some (pv_formatter_segmentcontent
                  (if final_update args
                   then replicate (length (eta_text_as_specified label eta)) CHR '' ''
                   else eta_text_as_specified label eta) args)
    \<and> (if offset args + length (eta_text_as_specified label eta) < args_buffer_size args
       then map_option (\<lambda>r. (fst r, segment_text (snd r))) (pv_formatter_eta ld label args)
            = Some (length (eta_text_as_specified label eta),
                    if final_update args
                    then replicate (length (eta_text_as_specified label eta)) CHR '' ''
                    else eta_text_as_specified label eta)
       else map_option (\<lambda>r. (fst r, buffer (snd r))) (pv_formatter_eta ld label args)
            = Some (0, buffer args))"
proof -
  note r = eta_seconds_range [OF assms(3)]
  from r have c: "eta_content label eta = eta_text_as_specified label eta"
    by (simp add: eta_content_whole(1))
  from r have "length (eta_content label eta) \<le> 43"
    by (simp only: eta_content_whole(2))
  then have l: "length (eta_text_as_specified label eta) \<le> 43"
    by (simp only: c)
  define shown where "shown = (if final_update args
      then replicate (length (eta_text_as_specified label eta)) CHR '' ''
      else eta_text_as_specified label eta)"
  have n: "length shown = length (eta_text_as_specified label eta)"
    by (simp add: shown_def)
  then have s: "length shown < 65536" using l by simp
  have "erase (eta_content label eta)
        = replicate (length (eta_text_as_specified label eta)) CHR '' ''"
    by (simp add: erase_def c map_replicate_const)
  then have f: "pv_formatter_eta ld label args = Some (pv_formatter_segmentcontent shown args)"
    using assms by (simp add: pv_formatter_eta_def c shown_def)
  have g: "map_option (\<lambda>r. (fst r, segment_text (snd r))) (pv_formatter_eta ld label args)
            = Some (length (eta_text_as_specified label eta), shown)"
    if "offset args + length (eta_text_as_specified label eta) < args_buffer_size args"
  proof -
    from that have "offset args + length shown < args_buffer_size args" using n by simp
    from segmentcontent_fits [OF this s] show ?thesis by (simp add: f n)
  qed
  have h: "map_option (\<lambda>r. (fst r, buffer (snd r))) (pv_formatter_eta ld label args)
            = Some (0, buffer args)"
    if "\<not> offset args + length (eta_text_as_specified label eta) < args_buffer_size args"
  proof -
    from that have "args_buffer_size args \<le> offset args + length shown" using n by simp
    from segmentcontent_no_room(1,2) [OF this s] show ?thesis by (simp add: f)
  qed
  have v: "eta = (if transfer_transferred args - display_initial_offset args < 1
                 \<or> calc_current_avg_rate args < binary64 (1 / 1000) then 0
              else max 0 (min 360000000
                     \<lfloor>ld (ld (real_of_int (control_size args - transfer_transferred args))
                           / calc_current_avg_rate args)\<rfloor>))"
    using assms(3) by (rule eta_seconds_value)
  have i: "if offset args + length (eta_text_as_specified label eta) < args_buffer_size args
       then map_option (\<lambda>r. (fst r, segment_text (snd r))) (pv_formatter_eta ld label args)
            = Some (length (eta_text_as_specified label eta), shown)
       else map_option (\<lambda>r. (fst r, buffer (snd r))) (pv_formatter_eta ld label args)
            = Some (0, buffer args)"
  proof (cases "offset args + length (eta_text_as_specified label eta) < args_buffer_size args")
    case True
    from g [OF True] True show ?thesis by (simp only: if_True)
  next
    case False
    from h [OF False] False show ?thesis by (simp only: if_False)
  qed
  from r v f i show ?thesis
    unfolding shown_def by (intro conjI) (elim conjE, assumption)+
qed

text \<open>
  Three million bytes left at ten bytes a second, with the rounding of the x87: 300000
  seconds, which is 3 days, 11 hours and 20 minutes, and the same call on the final update.
\<close>

theorem C8_eta_witness:
  "eta_seconds x87_extended long_haul = Some 300000
   \<and> map_option (\<lambda>r. (fst r, segment_text (snd r)))
       (pv_formatter_eta x87_extended ''ETA'' long_haul)
     = Some (14, ''ETA 3:11:20:00'')
   \<and> map_option (\<lambda>r. (fst r, segment_text (snd r)))
       (pv_formatter_eta x87_extended ''ETA'' (long_haul\<lparr>final_update := True\<rparr>))
     = Some (14, ''              '')"
proof -
  have f: "control_size long_haul = 3000050" "args_buffer_size long_haul = 4096"
    "offset long_haul = 5" "final_update long_haul = False"
    by (simp_all add: long_haul_def steady_def crawling_def)
  have s: "eta_seconds x87_extended long_haul = Some 300000"
    by (simp add: long_haul_def steady_def crawling_def eta_seconds_def off_t_diff_def
        pv_seconds_remaining_def pv_bound_long_def long_of_real_def x87_extended_def
        binary64_def fp_eval)
  have t: "eta_seconds x87_extended (long_haul\<lparr>final_update := True\<rparr>) = Some 300000"
    by (simp add: long_haul_def steady_def crawling_def eta_seconds_def off_t_diff_def
        pv_seconds_remaining_def pv_bound_long_def long_of_real_def x87_extended_def
        binary64_def fp_eval)
  have d: "eta_text_as_specified ''ETA'' 300000 = ''ETA 3:11:20:00''"
    by (simp add: eta_text_as_specified_def show_ld_def show_02ld_def decimal_one_digit
        decimal_two_digits)
  have r: "replicate 14 CHR '' '' = ''              ''"
    by (simp add: numeral_eq_Suc)
  have len: "length ''ETA 3:11:20:00'' = 14"
    by simp
  have g: "control_size (long_haul\<lparr>final_update := True\<rparr>) = 3000050"
    "args_buffer_size (long_haul\<lparr>final_update := True\<rparr>) = 4096"
    "offset (long_haul\<lparr>final_update := True\<rparr>) = 5"
    "final_update (long_haul\<lparr>final_update := True\<rparr>) = True"
    by (simp_all add: long_haul_def steady_def crawling_def)
  have "1 \<le> control_size long_haul" and "0 < args_buffer_size long_haul"
    by (simp_all add: f)
  from C8_eta_value_and_text [OF this s, of "''ETA''", THEN conjunct2, THEN conjunct2,
      THEN conjunct2, THEN conjunct2, unfolded d f len]
  have a: "map_option (\<lambda>r. (fst r, segment_text (snd r)))
       (pv_formatter_eta x87_extended ''ETA'' long_haul)
     = Some (14, ''ETA 3:11:20:00'')"
    by simp
  have "1 \<le> control_size (long_haul\<lparr>final_update := True\<rparr>)"
    and "0 < args_buffer_size (long_haul\<lparr>final_update := True\<rparr>)"
    by (simp_all add: g)
  from C8_eta_value_and_text [OF this t, of "''ETA''", THEN conjunct2, THEN conjunct2,
      THEN conjunct2, THEN conjunct2, unfolded d g len r]
  have b: "map_option (\<lambda>r. (fst r, segment_text (snd r)))
       (pv_formatter_eta x87_extended ''ETA'' (long_haul\<lparr>final_update := True\<rparr>))
     = Some (14, ''              '')"
    by simp
  from s a b show ?thesis by (intro conjI)
qed

subsection \<open>The estimate follows the rounding\<close>

text \<open>
  At a rate of \<open>0.1L\<close>, which lies above one tenth, the quotient of 50 bytes left is below
  500 and the division rounds it to 500: the estimate is 500 seconds. A rate of
  \<open>0x8.3126e978d4fdf3cp-13\<close> is not below one thousandth but is below the \<open>double\<close>
  constant 0.001: the estimate is 0.
\<close>

lemma eta_of_a_rounded_quotient:
  "50 / x87_extended (1 / 10) < (500 :: real)
   \<and> eta_seconds x87_extended (crawling\<lparr>calc_current_avg_rate := x87_extended (1 / 10)\<rparr>)
     = Some 500"
proof -
  have d: "x87_extended (1 / 10) = 14757395258967641293 / 147573952589676412928"
    by (simp add: x87_extended_def fp_eval)
  have "eta_seconds x87_extended
          (crawling\<lparr>calc_current_avg_rate := 14757395258967641293 / 147573952589676412928\<rparr>)
        = Some 500"
    by (simp add: crawling_def eta_seconds_def off_t_diff_def pv_seconds_remaining_def
        pv_bound_long_def long_of_real_def x87_extended_def binary64_def fp_eval)
  then show ?thesis by (simp add: d)
qed

lemma eta_at_the_threshold:
  "(1 / 1000 :: real) \<le> 9444732965739290428 * 2 powi (- 73)
   \<and> eta_seconds x87_extended
       (crawling\<lparr>calc_current_avg_rate := 9444732965739290428 * 2 powi (- 73)\<rparr>) = Some 0"
proof -
  have l: "(1 / 1000 :: real) \<le> 9444732965739290428 * 2 powi (- 73)"
    by (simp add: power_int_minus)
  have "eta_seconds x87_extended
       (crawling\<lparr>calc_current_avg_rate := 9444732965739290428 * 2 powi (- 73)\<rparr>) = Some 0"
    by (simp add: crawling_def eta_seconds_def off_t_diff_def pv_seconds_remaining_def
        pv_bound_long_def binary64_def fp_eval power_int_minus)
  with l show ?thesis by simp
qed

section \<open>Properties of the layout\<close>

subsection \<open>One segment\<close>

text \<open>
  Handling a segment replaces that segment only, by one of the same kind, and adds its
  width to the static width or counts it as elastic.
\<close>

lemma elastic_kind: "kind a = kind b \<Longrightarrow> elastic a = elastic b"
  by (simp add: kind_def elastic_def fixed_width_def)

lemma kind_seg_width [simp]: "kind (seg\<lparr>seg_width := w\<rparr>) = kind seg"
  by (simp add: kind_def)

lemma format_set_width:
  "format (set_width idx w st) = (format st)[idx := (format st ! idx)\<lparr>seg_width := w\<rparr>]"
  "static_portion_width (set_width idx w st) = static_portion_width st"
  "dynamic_segment_count (set_width idx w st) = dynamic_segment_count st"
  "formatter_calls (set_width idx w st) = formatter_calls st"
  by (simp_all add: set_width_def)

lemma format_advance_offset:
  "format (advance_offset n st) = format st"
  "static_portion_width (advance_offset n st) = static_portion_width st"
  "dynamic_segment_count (advance_offset n st) = dynamic_segment_count st"
  "formatter_calls (advance_offset n st) = formatter_calls st"
  by (simp_all add: advance_offset_def)

lemma format_add_static:
  "format (add_static w st) = format st"
  "static_portion_width (add_static w st) = static_portion_width st + w"
  "dynamic_segment_count (add_static w st) = dynamic_segment_count st"
  "formatter_calls (add_static w st) = formatter_calls st"
  by (simp_all add: add_static_def)

lemma call_formatter_result:
  assumes "keeps_kind components" and "call_formatter components idx st = (n, st')"
  shows "\<exists>seg. format st' = (format st)[idx := seg] \<and> kind seg = kind (format st ! idx)"
    and "static_portion_width st' = static_portion_width st"
    and "dynamic_segment_count st' = dynamic_segment_count st"
    and "formatter_calls st' = formatter_calls st @ [(idx, seg_width (format st ! idx))]"
proof -
  obtain m info where c: "components (seg_type (format st ! idx))
      ((formatter_info st)\<lparr>segment := format st ! idx\<rparr>) = (m, info)"
    by (cases "components (seg_type (format st ! idx))
      ((formatter_info st)\<lparr>segment := format st ! idx\<rparr>)") blast
  with assms(2) have s: "st' = st\<lparr>format := (format st)[idx := segment info],
              formatter_info := info,
              formatter_calls := formatter_calls st @ [(idx, seg_width (format st ! idx))]\<rparr>"
    by (simp add: call_formatter_def)
  from assms(1) have "kind (segment (snd (components (seg_type (format st ! idx))
      ((formatter_info st)\<lparr>segment := format st ! idx\<rparr>)))) = kind (format st ! idx)"
    unfolding keeps_kind_def kind_def by simp
  then have "kind (segment info) = kind (format st ! idx)"
    by (simp add: c)
  then show "\<exists>seg. format st' = (format st)[idx := seg] \<and> kind seg = kind (format st ! idx)"
    using s by (intro exI [of _ "segment info"]) simp
  show "static_portion_width st' = static_portion_width st"
    and "dynamic_segment_count st' = dynamic_segment_count st"
    and "formatter_calls st' = formatter_calls st @ [(idx, seg_width (format st ! idx))]"
    using s by simp_all
qed

lemma first_pass_segment_result:
  assumes "keeps_kind components" and "idx < length (format st)"
  shows "\<exists>seg. format (first_pass_segment components strwidth idx st) = (format st)[idx := seg]
           \<and> kind seg = kind (format st ! idx)
           \<and> static_portion_width (first_pass_segment components strwidth idx st)
             = static_portion_width st + (if elastic seg then 0 else seg_width seg)
           \<and> dynamic_segment_count (first_pass_segment components strwidth idx st)
             = dynamic_segment_count st + (if elastic seg then 1 else 0)"
proof (cases "seg_type (format st ! idx) = - 1")
  case True
  then show ?thesis
    by (intro exI [of _ "format st ! idx"])
       (simp add: first_pass_segment_def format_add_static elastic_def)
next
  case literal: False
  show ?thesis
  proof (cases "fixed_width (format st ! idx)")
    case False
    with literal show ?thesis
      by (intro exI [of _ "format st ! idx"]) (simp add: first_pass_segment_def elastic_def)
  next
    case True
    define st0 where "st0 = set_width idx (chosen_size (format st ! idx)) st"
    obtain n st1 where c: "call_formatter components idx st0 = (n, st1)"
      by (cases "call_formatter components idx st0") blast
    define w where "w = written_width strwidth n st1"
    have r: "first_pass_segment components strwidth idx st
             = add_static w (advance_offset n (set_width idx w st1))"
      using literal True c by (simp add: first_pass_segment_def st0_def w_def)
    have k0: "kind (format st0 ! idx) = kind (format st ! idx)"
      using assms(2) by (simp add: st0_def format_set_width)
    from call_formatter_result [OF assms(1) c]
    obtain seg where seg: "format st1 = (format st0)[idx := seg]"
        "kind seg = kind (format st0 ! idx)"
      and s1: "static_portion_width st1 = static_portion_width st0"
      and d1: "dynamic_segment_count st1 = dynamic_segment_count st0"
      by blast
    have f: "format (first_pass_segment components strwidth idx st)
             = (format st)[idx := seg\<lparr>seg_width := w\<rparr>]"
      using assms(2)
      by (simp add: r format_add_static format_advance_offset format_set_width seg(1) st0_def)
    have k: "kind (seg\<lparr>seg_width := w\<rparr>) = kind (format st ! idx)"
      using seg(2) k0 by simp
    have "\<not> elastic (format st ! idx)" using True by (simp add: elastic_def)
    with elastic_kind [OF k] have e: "\<not> elastic (seg\<lparr>seg_width := w\<rparr>)" by simp
    have s: "static_portion_width (first_pass_segment components strwidth idx st)
             = static_portion_width st + w"
      by (simp add: r format_add_static format_advance_offset format_set_width s1 st0_def)
    have d: "dynamic_segment_count (first_pass_segment components strwidth idx st)
             = dynamic_segment_count st"
      by (simp add: r format_add_static format_advance_offset format_set_width d1 st0_def)
    show ?thesis
      using f k e s d by (intro exI [of _ "seg\<lparr>seg_width := w\<rparr>"]) simp
  qed
qed

lemma second_pass_segment_result:
  assumes "keeps_kind components" and "idx < length (format st)"
  shows "\<exists>seg. format (second_pass_segment components each idx st) = (format st)[idx := seg]
           \<and> kind seg = kind (format st ! idx)"
    and "formatter_calls (second_pass_segment components each idx st)
         = formatter_calls st @ (if elastic (format st ! idx) then [(idx, each mod 65536)] else [])"
    and "dynamic_segment_count (second_pass_segment components each idx st)
         = dynamic_segment_count st"
proof -
  have "(\<exists>seg. format (second_pass_segment components each idx st) = (format st)[idx := seg]
           \<and> kind seg = kind (format st ! idx))
    \<and> formatter_calls (second_pass_segment components each idx st)
         = formatter_calls st @ (if elastic (format st ! idx) then [(idx, each mod 65536)] else [])
    \<and> dynamic_segment_count (second_pass_segment components each idx st)
         = dynamic_segment_count st"
  proof (cases "seg_type (format st ! idx) = - 1")
    case True
    then have "format (second_pass_segment components each idx st) = (format st)[idx := format st ! idx]"
      by (simp add: second_pass_segment_def format_add_static)
    then have "\<exists>seg. format (second_pass_segment components each idx st)
            = (format st)[idx := seg] \<and> kind seg = kind (format st ! idx)"
      by blast
    then show ?thesis using True
      by (simp add: second_pass_segment_def format_add_static elastic_def)
  next
    case literal: False
    show ?thesis
    proof (cases "fixed_width (format st ! idx)")
      case True
      with literal have "second_pass_segment components each idx st = st"
        by (simp add: second_pass_segment_def)
      moreover have "format st = (format st)[idx := format st ! idx]" by simp
      then have "\<exists>seg. format st = (format st)[idx := seg] \<and> kind seg = kind (format st ! idx)"
        by blast
      ultimately show ?thesis using True by (simp add: elastic_def)
    next
      case False
      define st0 where "st0 = set_width idx (each mod 65536) st"
      obtain n st1 where c: "call_formatter components idx st0 = (n, st1)"
        by (cases "call_formatter components idx st0") blast
      have r: "second_pass_segment components each idx st = advance_offset n st1"
        using literal False c by (simp add: second_pass_segment_def st0_def)
      have k0: "kind (format st0 ! idx) = kind (format st ! idx)"
        and w0: "seg_width (format st0 ! idx) = each mod 65536"
        using assms(2) by (simp_all add: st0_def format_set_width)
      from call_formatter_result [OF assms(1) c]
      obtain seg where seg: "format st1 = (format st0)[idx := seg]"
          "kind seg = kind (format st0 ! idx)"
        and d1: "dynamic_segment_count st1 = dynamic_segment_count st0"
        and c1: "formatter_calls st1 = formatter_calls st0 @ [(idx, seg_width (format st0 ! idx))]"
        by blast
      have f: "format (second_pass_segment components each idx st) = (format st)[idx := seg]"
        by (simp add: r format_advance_offset seg(1) st0_def format_set_width)
      have k: "kind seg = kind (format st ! idx)" using seg(2) k0 by simp
      have e: "elastic (format st ! idx)" using literal False by (simp add: elastic_def)
      have l: "formatter_calls (second_pass_segment components each idx st)
               = formatter_calls st @ [(idx, each mod 65536)]"
        by (simp add: r format_advance_offset c1 w0) (simp add: st0_def format_set_width)
      have d: "dynamic_segment_count (second_pass_segment components each idx st)
               = dynamic_segment_count st"
        by (simp add: r format_advance_offset d1) (simp add: st0_def format_set_width)
      from f k have "\<exists>seg. format (second_pass_segment components each idx st)
            = (format st)[idx := seg] \<and> kind seg = kind (format st ! idx)"
        by blast
      with e l d show ?thesis by simp
    qed
  qed
  then show "\<exists>seg. format (second_pass_segment components each idx st) = (format st)[idx := seg]
           \<and> kind seg = kind (format st ! idx)"
    and "formatter_calls (second_pass_segment components each idx st)
         = formatter_calls st @ (if elastic (format st ! idx) then [(idx, each mod 65536)] else [])"
    and "dynamic_segment_count (second_pass_segment components each idx st)
         = dynamic_segment_count st"
    by blast+
qed

subsection \<open>The two loops\<close>

lemma kinds_after_update:
  assumes "kind seg = kind (xs ! k)"
  shows "map kind (xs[k := seg]) = map kind xs"
proof (cases "k < length xs")
  case True
  have "map kind (xs[k := seg]) = (map kind xs)[k := kind seg]" by (rule map_update)
  also have "\<dots> = (map kind xs)[k := map kind xs ! k]" using assms True by simp
  also have "\<dots> = map kind xs" by (rule list_update_id)
  finally show ?thesis .
next
  case False
  then have "xs[k := seg] = xs" by (intro list_update_beyond) simp
  then show ?thesis by (simp only:)
qed

lemma kind_at:
  assumes "map kind xs = map kind ys" and "k < length ys"
  shows "kind (xs ! k) = kind (ys ! k)"
proof -
  from assms(1) have "length xs = length ys" by (rule map_eq_imp_length_eq)
  with assms(2) have "kind (xs ! k) = map kind xs ! k" by simp
  also have "\<dots> = map kind ys ! k" by (simp only: assms(1))
  also have "\<dots> = kind (ys ! k)" using assms(2) by simp
  finally show ?thesis .
qed

lemma first_pass_upto:
  assumes "keeps_kind components" and "k \<le> length (format st)"
  shows "map kind (format (fold (first_pass_segment components strwidth) [0 ..< k] st))
           = map kind (format st)
       \<and> static_portion_width (fold (first_pass_segment components strwidth) [0 ..< k] st)
           = static_portion_width st
             + sum_list (map seg_width (filter (\<lambda>seg. \<not> elastic seg)
                 (take k (format (fold (first_pass_segment components strwidth) [0 ..< k] st)))))
       \<and> dynamic_segment_count (fold (first_pass_segment components strwidth) [0 ..< k] st)
           = dynamic_segment_count st + length (filter elastic (take k (format st)))"
  using assms(2)
proof (induction k)
  case 0
  show ?case by simp
next
  case (Suc k)
  define s where "s = fold (first_pass_segment components strwidth) [0 ..< k] st"
  define s' where "s' = first_pass_segment components strwidth k s"
  have f: "fold (first_pass_segment components strwidth) [0 ..< Suc k] st = s'"
    by (simp add: s_def s'_def)
  from Suc have ih: "map kind (format s) = map kind (format st)"
    "static_portion_width s = static_portion_width st
       + sum_list (map seg_width (filter (\<lambda>seg. \<not> elastic seg) (take k (format s))))"
    "dynamic_segment_count s = dynamic_segment_count st + length (filter elastic (take k (format st)))"
    by (simp_all add: s_def)
  have k: "k < length (format st)" using Suc.prems by simp
  from ih(1) have len: "length (format s) = length (format st)" by (rule map_eq_imp_length_eq)
  with k have ks: "k < length (format s)" by simp
  from first_pass_segment_result [OF assms(1) ks, of strwidth]
  obtain seg where seg: "format s' = (format s)[k := seg]" "kind seg = kind (format s ! k)"
    and st: "static_portion_width s' = static_portion_width s + (if elastic seg then 0 else seg_width seg)"
    and dy: "dynamic_segment_count s' = dynamic_segment_count s + (if elastic seg then 1 else 0)"
    unfolding s'_def by blast
  have a: "map kind (format s') = map kind (format st)"
    using kinds_after_update [OF seg(2)] ih(1) by (simp add: seg(1))
  have "kind seg = kind (format st ! k)"
    using seg(2) kind_at [OF ih(1) k] by simp
  then have e: "elastic seg = elastic (format st ! k)" by (rule elastic_kind)
  have t': "take (Suc k) (format s') = take k (format s) @ [seg]"
    using ks by (simp add: seg(1) take_Suc_conv_app_nth)
  have t: "take (Suc k) (format st) = take k (format st) @ [format st ! k]"
    using k by (simp add: take_Suc_conv_app_nth)
  have b: "static_portion_width s' = static_portion_width st
       + sum_list (map seg_width (filter (\<lambda>seg. \<not> elastic seg) (take (Suc k) (format s'))))"
    by (simp add: st ih(2) t')
  have c: "dynamic_segment_count s' = dynamic_segment_count st
       + length (filter elastic (take (Suc k) (format st)))"
    by (simp add: dy ih(3) t e)
  from a b c show ?case unfolding f by (intro conjI)
qed

lemma second_pass_upto:
  assumes "keeps_kind components" and "k \<le> length (format st)"
  shows "map kind (format (fold (second_pass_segment components each) [0 ..< k] st))
           = map kind (format st)
       \<and> formatter_calls (fold (second_pass_segment components each) [0 ..< k] st)
           = formatter_calls st
             @ map (\<lambda>i. (i, each mod 65536)) (filter (\<lambda>i. elastic (format st ! i)) [0 ..< k])"
  using assms(2)
proof (induction k)
  case 0
  show ?case by simp
next
  case (Suc k)
  define s where "s = fold (second_pass_segment components each) [0 ..< k] st"
  define s' where "s' = second_pass_segment components each k s"
  have f: "fold (second_pass_segment components each) [0 ..< Suc k] st = s'"
    by (simp add: s_def s'_def)
  from Suc have ih: "map kind (format s) = map kind (format st)"
    "formatter_calls s = formatter_calls st
       @ map (\<lambda>i. (i, each mod 65536)) (filter (\<lambda>i. elastic (format st ! i)) [0 ..< k])"
    by (simp_all add: s_def)
  have k: "k < length (format st)" using Suc.prems by simp
  from ih(1) have len: "length (format s) = length (format st)" by (rule map_eq_imp_length_eq)
  with k have ks: "k < length (format s)" by simp
  from second_pass_segment_result(1) [OF assms(1) ks, of each]
  obtain seg where seg: "format s' = (format s)[k := seg]" "kind seg = kind (format s ! k)"
    unfolding s'_def by blast
  have c: "formatter_calls s' = formatter_calls s
      @ (if elastic (format s ! k) then [(k, each mod 65536)] else [])"
    unfolding s'_def using assms(1) ks by (rule second_pass_segment_result(2))
  have a: "map kind (format s') = map kind (format st)"
    using kinds_after_update [OF seg(2)] ih(1) by (simp add: seg(1))
  have e: "elastic (format s ! k) = elastic (format st ! k)"
    using kind_at [OF ih(1) k] by (rule elastic_kind)
  have b: "formatter_calls s' = formatter_calls st
       @ map (\<lambda>i. (i, each mod 65536)) (filter (\<lambda>i. elastic (format st ! i)) [0 ..< Suc k])"
    by (simp add: c ih(2) e)
  from a b show ?case unfolding f by (intro conjI)
qed

lemma no_elastic_index:
  assumes "filter elastic xs = []"
  shows "filter (\<lambda>i. elastic (xs ! i)) [0 ..< length xs] = []"
proof -
  from assms have "\<forall>x \<in> set xs. \<not> elastic x" by (simp add: filter_empty_conv)
  then have "\<forall>i \<in> set [0 ..< length xs]. \<not> elastic (xs ! i)" by simp
  then show ?thesis by (simp only: filter_empty_conv) 
qed

subsection \<open>The width of an elastic segment\<close>

text \<open>A quotient of a 16-bit width fits in the 16 bits of the width of a segment.\<close>

lemma width_of_each:
  assumes "width < 65536" and "0 < dynamic_segment_count st"
  shows "dynamic_segment_width width st mod 65536
         = nat (max 0 (int width - int (static_portion_width st))) div dynamic_segment_count st"
proof -
  have n: "nat (max 0 (int width - int (static_portion_width st)))
           = width - static_portion_width st"
    by (simp add: max_def nat_diff_distrib')
  have d: "dynamic_segment_width width st
           = (width - static_portion_width st) div dynamic_segment_count st"
  proof (cases "dynamic_segment_count st > 1")
    case True
    then show ?thesis by (simp add: dynamic_segment_width_def)
  next
    case False
    with assms(2) have "dynamic_segment_count st = 1" by simp
    then show ?thesis by (simp add: dynamic_segment_width_def)
  qed
  have "(width - static_portion_width st) div dynamic_segment_count st \<le> width"
    by (rule order_trans [OF div_le_dividend]) simp
  with assms(1) have "dynamic_segment_width width st < 65536" by (simp add: d)
  then show ?thesis by (simp add: d n)
qed


text \<open>
  C7. With formatters that keep the type and the chosen size of their segment, and a
  screen width of 16 bits: after the first pass the static width is the sum of the widths
  of the static strings and of the fixed-width segments, and the count is the number of
  elastic segments; the second pass calls a formatter for exactly the elastic segments,
  in order, each with the width \<open>max 0 (width - static width) div count\<close> in its segment.
\<close>

theorem C7_elastic_segments_share_the_remaining_width:
  assumes "keeps_kind components" and "width < 65536"
  shows "static_portion_width (first_pass components strwidth st)
           = sum_list (map seg_width (filter (\<lambda>seg. \<not> elastic seg)
               (format (first_pass components strwidth st))))
       \<and> dynamic_segment_count (first_pass components strwidth st)
           = length (filter elastic (format st))
       \<and> formatter_calls (pv_format_passes components strwidth width st)
           = formatter_calls (first_pass components strwidth st)
             @ map (\<lambda>i. (i, nat (max 0 (int width
                                 - int (static_portion_width (first_pass components strwidth st))))
                            div dynamic_segment_count (first_pass components strwidth st)))
                 (filter (\<lambda>i. elastic (format st ! i)) [0 ..< length (format st)])"
proof -
  define st0 where "st0 = st\<lparr>static_portion_width := 0, dynamic_segment_count := 0\<rparr>"
  define st1 where "st1 = first_pass components strwidth st"
  have f0: "format st0 = format st" "static_portion_width st0 = 0" "dynamic_segment_count st0 = 0"
    by (simp_all add: st0_def)
  have s1: "fold (first_pass_segment components strwidth) [0 ..< length (format st0)] st0 = st1"
    by (simp add: st1_def first_pass_def st0_def)
  note first_pass_upto [OF assms(1) order_refl, where st = st0 and strwidth = strwidth,
      unfolded s1, unfolded f0]
  then have k1: "map kind (format st1) = map kind (format st)"
    and a: "static_portion_width st1
            = sum_list (map seg_width (filter (\<lambda>seg. \<not> elastic seg)
                (take (length (format st)) (format st1))))"
    and b: "dynamic_segment_count st1 = length (filter elastic (format st))"
    by simp_all
  from k1 have len: "length (format st1) = length (format st)" by (rule map_eq_imp_length_eq)
  then have a': "static_portion_width st1
            = sum_list (map seg_width (filter (\<lambda>seg. \<not> elastic seg) (format st1)))"
    using a by simp
  define each where "each = dynamic_segment_width width st1"
  have p: "fold (second_pass_segment components each) [0 ..< length (format st1)] st1
           = pv_format_passes components strwidth width st"
    by (simp add: pv_format_passes_def second_pass_def st1_def each_def)
  note second_pass_upto [OF assms(1) order_refl, where st = st1 and each = each, unfolded p]
  then have c: "formatter_calls (pv_format_passes components strwidth width st)
           = formatter_calls st1
             @ map (\<lambda>i. (i, each mod 65536))
                 (filter (\<lambda>i. elastic (format st1 ! i)) [0 ..< length (format st1)])"
    by simp
  have e: "filter (\<lambda>i. elastic (format st1 ! i)) [0 ..< length (format st1)]
           = filter (\<lambda>i. elastic (format st ! i)) [0 ..< length (format st)]"
    unfolding len
  proof (rule filter_cong [OF refl])
    fix i assume "i \<in> set [0 ..< length (format st)]"
    then have "i < length (format st)" by simp
    from kind_at [OF k1 this] show "elastic (format st1 ! i) = elastic (format st ! i)"
      by (rule elastic_kind)
  qed
  have d: "formatter_calls (pv_format_passes components strwidth width st)
           = formatter_calls st1
             @ map (\<lambda>i. (i, nat (max 0 (int width - int (static_portion_width st1)))
                            div dynamic_segment_count st1))
                 (filter (\<lambda>i. elastic (format st ! i)) [0 ..< length (format st)])"
  proof (cases "dynamic_segment_count st1 = 0")
    case True
    with b have "filter elastic (format st) = []" by simp
    then have "filter (\<lambda>i. elastic (format st ! i)) [0 ..< length (format st)] = []"
      by (rule no_elastic_index)
    then show ?thesis using c e by simp
  next
    case False
    then have "0 < dynamic_segment_count st1" by simp
    from width_of_each [OF assms(2) this] show ?thesis
      using c e by (simp add: each_def)
  qed
  from a' b d show ?thesis
    unfolding st1_def by (intro conjI)
qed

text \<open>
  Five segments on a screen of 80 columns: the static string, the ETA and the bar of
  chosen size 10 take 27 columns, and each of the two elastic bars is given 26.
\<close>

lemma upt5: "[0 ..< 5] = [0, 1, 2, 3, 4]"
  by (simp add: upt_conv_Cons)

lemmas layout_defs = first_pass_def first_pass_segment_def second_pass_def second_pass_segment_def
  pv_format_passes_def call_formatter_def set_width_def advance_offset_def add_static_def
  written_width_def fixed_width_def component_dynamic_def format_component_array_def
  dynamic_segment_width_def filling_def pv_formatter_segmentcontent_def before_layout_def
  five_segments_def literal_segment_def empty_segment_def crawling_def Let_def upt5

theorem C7_elastic_witness:
  "static_portion_width (first_pass filling length before_layout) = 27
   \<and> dynamic_segment_count (first_pass filling length before_layout) = 2
   \<and> formatter_calls (pv_format_passes filling length 80 before_layout)
     = [(2, 0), (4, 10), (1, 26), (3, 26)]"
proof -
  have k: "keeps_kind filling"
    by (simp add: keeps_kind_def filling_def pv_formatter_segmentcontent_def Let_def)
  have w: "(80 :: nat) < 65536" by simp
  have a: "static_portion_width (first_pass filling length before_layout) = 27"
    by (simp add: layout_defs)
  have b: "dynamic_segment_count (first_pass filling length before_layout) = 2"
    by (simp add: layout_defs)
  have c: "formatter_calls (first_pass filling length before_layout) = [(2, 0), (4, 10)]"
    by (simp add: layout_defs)
  have d: "filter (\<lambda>i. elastic (format before_layout ! i)) [0 ..< length (format before_layout)]
           = [1, 3]"
    by (simp add: layout_defs elastic_def)
  from C7_elastic_segments_share_the_remaining_width [OF k w, where strwidth = length
      and st = before_layout,
      THEN conjunct2, THEN conjunct2, unfolded a b c d]
  have "formatter_calls (pv_format_passes filling length 80 before_layout)
     = [(2, 0), (4, 10), (1, 26), (3, 26)]"
    by simp
  with a b show ?thesis by (intro conjI)
qed

end
